theory Spec2Isabelle
  imports Main "HOL-Library.AList"
begin

section \<open>JavaScript values\<close>

text \<open>
  The server is JavaScript: event payloads are untyped objects, and two of its call
  sites hand a method more arguments than it declares. The values that flow through
  the routing code are modelled by \<open>jsval\<close>. An object is the list of its own
  properties in insertion order. Reading a property of \<open>undefined\<close> raises a
  TypeError; reading a name an object does not have gives \<open>undefined\<close>, unless
  the name is one every object inherits: the code reads from payload objects only the
  names listed next, none of which is inherited. From
  values that may be strings, numbers or arrays the code reads only the names
  \<open>room\<close>, \<open>dates\<close>, \<open>visitor\<close> and \<open>id\<close>, and those have no such
  property. \<open>null\<close>, which raises like \<open>undefined\<close> when a property of it is
  read, is not told apart from it.
\<close>

datatype jsval =
    JUndefined
  | JBool bool
  | JNum nat
  | JStr string
  | JArr "jsval list"
  | JObj "(string \<times> jsval) list"

datatype js_error = TypeError | ReferenceError | Thrown string

fun truthy :: "jsval \<Rightarrow> bool" where
  "truthy JUndefined = False"
| "truthy (JBool b) = b"
| "truthy (JNum n) = (n \<noteq> 0)"
| "truthy (JStr s) = (s \<noteq> [])"
| "truthy (JArr xs) = True"
| "truthy (JObj kvs) = True"

text \<open>A handshake query field or an identity name: a string, or absent.\<close>

definition truthy_str :: "string option \<Rightarrow> bool" where
  "truthy_str x = (case x of None \<Rightarrow> False | Some s \<Rightarrow> s \<noteq> [])"

fun get_prop :: "jsval \<Rightarrow> string \<Rightarrow> js_error + jsval" where
  "get_prop JUndefined k = Inl TypeError"
| "get_prop (JObj kvs) k = Inr (case map_of kvs k of None \<Rightarrow> JUndefined | Some v \<Rightarrow> v)"
| "get_prop v k = Inr JUndefined"

text \<open>
  A function called with fewer arguments than parameters sees \<open>undefined\<close> for the
  rest, and ignores the arguments beyond its parameters.
\<close>

definition arg :: "jsval list \<Rightarrow> nat \<Rightarrow> jsval" where
  "arg args i = (if i < length args then args ! i else JUndefined)"

text \<open>Decimal digits of a number, for template literals.\<close>

definition digit_char :: "nat \<Rightarrow> char" where
  "digit_char d = char_of (48 + d)"

function show_nat :: "nat \<Rightarrow> string" where
  "show_nat n = (if n < 10 then [digit_char n] else show_nat (n div 10) @ [digit_char (n mod 10)])"
  by pat_completeness auto
termination
  by (relation "measure id") auto

fun join_comma :: "string list \<Rightarrow> string" where
  "join_comma [] = []"
| "join_comma [s] = s"
| "join_comma (s # t # ss) = s @ '','' @ join_comma (t # ss)"

text \<open>The string a template literal \<open>`${v}`\<close> puts in for a value.\<close>

fun template :: "jsval \<Rightarrow> string" where
  "template JUndefined = ''undefined''"
| "template (JBool b) = (if b then ''true'' else ''false'')"
| "template (JNum n) = show_nat n"
| "template (JStr s) = s"
| "template (JArr xs) = join_comma (map (\<lambda>x. if x = JUndefined then [] else template x) xs)"
| "template (JObj kvs) = ''[object Object]''"

text \<open>\<open>results.flat()\<close>: one level of nested arrays is spliced in.\<close>

fun flat :: "jsval list \<Rightarrow> jsval list" where
  "flat [] = []"
| "flat (JArr xs # rest) = xs @ flat rest"
| "flat (v # rest) = v # flat rest"

section \<open>Payloads of the inbound events\<close>

text \<open>
  Each handler destructures its payload; the records hold the fields a handler reads.
  Room and visitor names are strings; what a handler only forwards stays a \<open>jsval\<close>.
\<close>

record query =
  q_id :: "string option"
  q_room :: "string option"
  q_visitor :: "string option"
  q_admin :: "string option"
  q_state :: "string option"
  q_nsp :: "string option"

record open_data =
  o_room :: string
  o_id :: string

record room_ref =
  r_room :: string
  r_id :: jsval
  r_nsp :: jsval

record enter_data =
  e_room :: room_ref
  e_visitor :: jsval
  e_sentTime :: jsval

record leave_data =
  l_room :: room_ref
  l_visitor :: jsval
  l_sentTime :: jsval
  l_message :: jsval

record exposure_data =
  x_visitor :: jsval
  x_warnings :: "(string \<times> jsval) list"

record alert_data =
  a_message :: jsval
  a_visitor :: "string option"
  a_id :: jsval

definition room_ref_js :: "room_ref \<Rightarrow> jsval" where
  "room_ref_js r = JObj [(''room'', JStr (r_room r)), (''id'', r_id r), (''nsp'', r_nsp r)]"

text \<open>
  What \<open>pendingWarnings\<close> stores under a key is the whole payload of the event that
  could not be delivered: that of an \<open>exposureWarning\<close> or that of an
  \<open>alertVisitor\<close>.
\<close>

datatype pending = Warning exposure_data | Alert alert_data

section \<open>The server's state\<close>

text \<open>
  \<open>sockets\<close> is the namespace's table of connected sockets with their handshake
  queries, \<open>rooms\<close> the adapter's table from a group name to the ids of its members,
  \<open>pendingWarnings\<close> the \<open>Map\<close> of server.js (insertion ordered, one entry per
  key), and \<open>emitted\<close> the log of what the server sent, oldest first.
  \<open>ToGroup t e p\<close> is \<open>io.to(t).emit(e, p)\<close>; the other two are the
  broadcasts \<open>openRoomsExposed\<close>, with the list of open rooms, and
  \<open>updatedOccupancy\<close>, with a room and its occupancy, to the whole namespace.
\<close>

datatype emission =
    ToGroup jsval jsval jsval
  | OpenRoomsExposed "(string \<times> query) list"
  | UpdatedOccupancy string jsval

record server =
  sockets :: "(string \<times> query) list"
  rooms :: "(string \<times> string list) list"
  pendingWarnings :: "(string \<times> pending) list"
  emitted :: "emission list"

definition emit :: "emission \<Rightarrow> server \<Rightarrow> server" where
  "emit e st = st\<lparr>emitted := emitted st @ [e]\<rparr>"

subsection \<open>The transport: joining and leaving groups\<close>

text \<open>
  \<open>socket.join\<close>, \<open>socket.leave\<close> and a disconnect act on the adapter's tables.
  Joining creates the group when it is absent and is idempotent; a group that loses its
  last member is deleted; a disconnecting socket leaves every group and the socket
  table. A connecting socket is entered in the socket table and joins the group named
  by its own id before the server's connection handler runs. A group is a property of
  its own of the adapter's table, under whatever name it was joined.
\<close>

definition members :: "server \<Rightarrow> string \<Rightarrow> string list" where
  "members st name = (case map_of (rooms st) name of None \<Rightarrow> [] | Some ms \<Rightarrow> ms)"

definition join :: "string \<Rightarrow> string \<Rightarrow> server \<Rightarrow> server" where
  "join sid name st =
     (let ms = members st name
      in st\<lparr>rooms := AList.update name (if sid \<in> set ms then ms else ms @ [sid]) (rooms st)\<rparr>)"

definition leave :: "string \<Rightarrow> string \<Rightarrow> server \<Rightarrow> server" where
  "leave sid name st =
     (case map_of (rooms st) name of
        None \<Rightarrow> st
      | Some ms \<Rightarrow>
          (let ms' = removeAll sid ms
           in st\<lparr>rooms := (if ms' = [] then AList.delete name (rooms st)
                             else AList.update name ms' (rooms st))\<rparr>))"

definition leaveAll :: "string \<Rightarrow> (string \<times> string list) list \<Rightarrow> (string \<times> string list) list" where
  "leaveAll sid rs = filter (\<lambda>g. snd g \<noteq> []) (map (\<lambda>g. (fst g, removeAll sid (snd g))) rs)"

definition disconnect :: "string \<Rightarrow> server \<Rightarrow> server" where
  "disconnect sid st =
     st\<lparr>sockets := AList.delete sid (sockets st), rooms := leaveAll sid (rooms st)\<rparr>"

definition register :: "string \<Rightarrow> query \<Rightarrow> server \<Rightarrow> server" where
  "register sid q st = join sid sid (st\<lparr>sockets := AList.update sid q (sockets st)\<rparr>)"

section \<open>ServerProxy\<close>

text \<open>The getters of the proxy class read the transport's tables.\<close>

definition available :: "server \<Rightarrow> (string \<times> query) list" where
  "available st = filter (\<lambda>v. truthy_str (q_room (snd v))) (sockets st)"

definition visitors :: "server \<Rightarrow> (string \<times> query) list" where
  "visitors st = filter (\<lambda>v. truthy_str (q_visitor (snd v))) (sockets st)"

text \<open>
  The adapter's table of groups is a plain object, and the proxy reads it with
  \<open>this.rooms[name]\<close>. Such a read finds the group of that name when the table has
  one; for the names every object inherits from \<open>Object.prototype\<close> it finds the
  inherited member, a function (for \<open>__proto__\<close> the prototype itself), which is
  truthy; for any other name it finds \<open>undefined\<close>.
\<close>

definition proto_names :: "string list" where
  "proto_names =
     [''constructor'', ''__defineGetter__'', ''__defineSetter__'', ''hasOwnProperty'',
      ''__lookupGetter__'', ''__lookupSetter__'', ''isPrototypeOf'', ''propertyIsEnumerable'',
      ''toString'', ''valueOf'', ''__proto__'', ''toLocaleString'']"

datatype slot = Group "string list" | Inherited string | Missing

definition rooms_at :: "server \<Rightarrow> string \<Rightarrow> slot" where
  "rooms_at st name =
     (case map_of (rooms st) name of
        Some ms \<Rightarrow> Group ms
      | None \<Rightarrow> if name \<in> set proto_names then Inherited name else Missing)"

text \<open>
  The \<open>length\<close> of what a read finds: the member count of a group; the number of
  parameters of an inherited function (the prototype itself has no \<open>length\<close>); a
  TypeError for \<open>undefined\<close>.
\<close>

definition inherited_length :: "string \<Rightarrow> jsval" where
  "inherited_length n =
     (if n = ''__proto__'' then JUndefined
      else if n \<in> set [''__defineGetter__'', ''__defineSetter__''] then JNum 2
      else if n \<in> set [''toString'', ''valueOf'', ''toLocaleString''] then JNum 0
      else JNum 1)"

definition slot_length :: "slot \<Rightarrow> js_error + jsval" where
  "slot_length s =
     (case s of
        Group ms \<Rightarrow> Inr (JNum (length ms))
      | Inherited n \<Rightarrow> Inr (inherited_length n)
      | Missing \<Rightarrow> Inl TypeError)"

text \<open>
  \<open>openRooms\<close> keeps the sockets of \<open>available\<close> for whose room name that read
  is truthy: \<open>a.filter((v) => o[v.room])\<close>.
\<close>

definition has_group :: "server \<Rightarrow> string option \<Rightarrow> bool" where
  "has_group st name =
     (rooms_at st (case name of None \<Rightarrow> ''undefined'' | Some r \<Rightarrow> r) \<noteq> Missing)"

definition openRooms :: "server \<Rightarrow> (string \<times> query) list" where
  "openRooms st = filter (\<lambda>v. has_group st (q_room (snd v))) (available st)"

text \<open>
  The test the router makes before it delivers a warning:
  \<open>S.openRooms.filter((v) => v.room == roomName).length\<close>.
\<close>

definition isOpen :: "server \<Rightarrow> string \<Rightarrow> bool" where
  "isOpen st roomName = (filter (\<lambda>v. q_room (snd v) = Some roomName) (openRooms st) \<noteq> [])"

definition getOccupancy :: "server \<Rightarrow> string \<Rightarrow> js_error + jsval" where
  "getOccupancy st room =
     (if room = [] then Inl (Thrown ''No room name specified'')
      else slot_length (rooms_at st room))"

text \<open>A group as the adapter holds it: its member table and its \<open>length\<close>.\<close>

definition group_js :: "string list \<Rightarrow> jsval" where
  "group_js ms = JObj [(''sockets'', JObj (map (\<lambda>i. (i, JBool True)) ms)), (''length'', JNum (length ms))]"

text \<open>
  \<open>updateOccupancy\<close> is guarded by \<open>room && this.rooms[room]\<close>. It then reads
  \<open>this.rooms.length\<close>, a property of the table of all groups: it is the group named
  \<open>length\<close> when there is one and \<open>undefined\<close> otherwise, and
  \<open>undefined || 0\<close> is 0.
\<close>

definition updateOccupancy :: "server \<Rightarrow> string \<Rightarrow> jsval \<times> server" where
  "updateOccupancy st room =
     (if room \<noteq> [] \<and> rooms_at st room \<noteq> Missing then
        (let occupancy = (case rooms_at st ''length'' of
                            Group ms \<Rightarrow> group_js ms
                          | Inherited n \<Rightarrow> JNum 0
                          | Missing \<Rightarrow> JNum 0)
         in (occupancy, emit (UpdatedOccupancy room occupancy) st))
      else (JNum 0, st))"

text \<open>
  \<open>roomIdsIncludeSocket\<close> evaluates
  \<open>this.rooms[roomName] && this.rooms[roomName].sockets[id]\<close> in a \<open>try\<close>. An
  inherited member has no \<open>sockets\<close>, so indexing it raises, and the \<open>catch\<close>
  returns \<open>false\<close>.
\<close>

definition roomIdsIncludeSocket :: "server \<Rightarrow> string \<Rightarrow> string \<Rightarrow> jsval" where
  "roomIdsIncludeSocket st roomName i =
     (case rooms_at st roomName of
        Missing \<Rightarrow> JUndefined
      | Group ms \<Rightarrow> if i \<in> set ms then JBool True else JUndefined
      | Inherited n \<Rightarrow> JBool False)"

text \<open>
  \<open>privateMessage(event, message)\<close> declares two parameters and sends \<open>message\<close>
  under the name \<open>event\<close> to the group \<open>message.room\<close>. It is given the list of
  the arguments of the call, so that a call with three arguments reads as in the
  source.
\<close>

definition privateMessage :: "jsval list \<Rightarrow> server \<Rightarrow> js_error + server" where
  "privateMessage args st =
     (let event = arg args 0; message = arg args 1
      in case get_prop message ''room'' of
           Inl e \<Rightarrow> Inl e
         | Inr target \<Rightarrow> Inr (emit (ToGroup target event message) st))"

text \<open>
  \<open>notifyRoom(data)\<close> takes \<open>room\<close> from its argument before the \<open>try\<close>, calls
  \<open>this.privateMessage(room, 'notifyRoom', data)\<close> and returns
  \<open>`${room} WARNED`\<close>, or the error it caught.
\<close>

definition error_js :: "js_error \<Rightarrow> jsval" where
  "error_js e = JObj [(''name'', JStr (case e of TypeError \<Rightarrow> ''TypeError''
                                         | ReferenceError \<Rightarrow> ''ReferenceError''
                                         | Thrown s \<Rightarrow> s))]"

definition notifyRoom :: "jsval \<Rightarrow> server \<Rightarrow> js_error + (jsval \<times> server)" where
  "notifyRoom data st =
     (case get_prop data ''room'' of
        Inl e \<Rightarrow> Inl e
      | Inr room \<Rightarrow>
          (case privateMessage [room, JStr ''notifyRoom'', data] st of
             Inl e \<Rightarrow> Inr (error_js e, st)
           | Inr st' \<Rightarrow> Inr (JStr (template room @ '' WARNED''), st')))"

definition exposeOpenRooms :: "server \<Rightarrow> server" where
  "exposeOpenRooms st = emit (OpenRoomsExposed (openRooms st)) st"

section \<open>server.js\<close>

subsection \<open>handlePendings\<close>

text \<open>The text a template literal puts in for a query field that may be absent.\<close>

definition str_of :: "string option \<Rightarrow> string" where
  "str_of x = (case x of None \<Rightarrow> ''undefined'' | Some s \<Rightarrow> s)"

text \<open>\<open>pendingWarnings.has(k)\<close> for a query field: no key of the map is \<open>undefined\<close>.\<close>

definition has_pending :: "server \<Rightarrow> string option \<Rightarrow> bool" where
  "has_pending st k = (case k of None \<Rightarrow> False | Some s \<Rightarrow> map_of (pendingWarnings st) s \<noteq> None)"

text \<open>
  \<open>value.warnings[key].dates\<close>: the payload of an \<open>alertVisitor\<close> has no
  \<open>warnings\<close>, so indexing it raises. The warnings of an \<open>exposureWarning\<close> are
  a plain object: for a name it does not have but inherits, the read finds a function,
  whose \<open>dates\<close> is \<open>undefined\<close>.
\<close>

definition exposureDates_of :: "pending \<Rightarrow> string \<Rightarrow> js_error + jsval" where
  "exposureDates_of v key =
     (case v of
        Alert a \<Rightarrow> Inl TypeError
      | Warning d \<Rightarrow>
          (case map_of (x_warnings d) key of
             Some w \<Rightarrow> get_prop w ''dates''
           | None \<Rightarrow> if key \<in> set proto_names then Inr JUndefined else Inl TypeError))"

text \<open>
  The room branch runs \<open>pendingWarnings.forEach\<close> over every entry of the map: it
  builds the message, calls \<open>S.privateMessage(query.room, 'notifyRoom', message)\<close>
  and deletes the entry. An exception ends the loop and leaves what was done so far.
\<close>

fun flush_rooms :: "string \<Rightarrow> (string \<times> pending) list \<Rightarrow> server \<Rightarrow> js_error option \<times> server" where
  "flush_rooms qroom [] st = (None, st)"
| "flush_rooms qroom ((key, v) # rest) st =
     (case exposureDates_of v key of
        Inl e \<Rightarrow> (Some e, st)
      | Inr dates \<Rightarrow>
          (let message = JObj [(''visitor'', JStr []), (''exposureDates'', dates), (''room'', JStr key)]
           in case privateMessage [JStr qroom, JStr ''notifyRoom'', message] st of
                Inl e \<Rightarrow> (Some e, st)
              | Inr st1 \<Rightarrow>
                  flush_rooms qroom rest
                    (st1\<lparr>pendingWarnings := AList.delete key (pendingWarnings st1)\<rparr>)))"

text \<open>
  The visitor branch calls \<open>privateMessage(query.id, 'exposureAlert', message)\<close>.
  server.js binds no \<open>privateMessage\<close> (the method is \<open>S.privateMessage\<close>), so
  the first entry visited raises a ReferenceError before anything is sent or deleted.
\<close>

fun flush_visitors :: "string option \<Rightarrow> (string \<times> pending) list \<Rightarrow> server \<Rightarrow> js_error option \<times> server" where
  "flush_visitors qid [] st = (None, st)"
| "flush_visitors qid ((key, v) # rest) st = (Some ReferenceError, st)"

definition handlePendings :: "query \<Rightarrow> server \<Rightarrow> (js_error + string option) \<times> server" where
  "handlePendings q st =
     (if truthy_str (q_room q) then
        (if \<not> has_pending st (q_room q) then
           (Inr (Some (''Nothing pending for '' @ str_of (q_room q))), st)
         else
           (case flush_rooms (str_of (q_room q)) (pendingWarnings st) st of
              (Some e, st') \<Rightarrow> (Inl e, st')
            | (None, st') \<Rightarrow> (Inr None, st')))
      else if truthy_str (q_visitor q) \<or> truthy_str (q_admin q) then
        (if pendingWarnings st = [] \<or> \<not> has_pending st (q_visitor q) then
           (Inr (Some (''Nothing pending for '' @ str_of (q_visitor q))), st)
         else
           (case flush_visitors (q_id q) (pendingWarnings st) st of
              (Some e, st') \<Rightarrow> (Inl e, st')
            | (None, st') \<Rightarrow> (Inr None, st')))
      else (Inr None, st))"

subsection \<open>The connection handler\<close>

text \<open>
  \<open>onConnection\<close> and the handler of \<open>io.on('connection')\<close> have no \<open>try\<close>:
  an exception of \<open>handlePendings\<close> is uncaught there, and the process exits. The
  first component of the result is that exception.
\<close>

definition onConnection :: "query \<Rightarrow> server \<Rightarrow> js_error option \<times> server" where
  "onConnection q st =
     (case handlePendings q st of
        (Inl e, st') \<Rightarrow> (Some e, st')
      | (Inr msg, st') \<Rightarrow> (None, exposeOpenRooms st'))"

definition connection :: "string \<Rightarrow> query \<Rightarrow> server \<Rightarrow> js_error option \<times> server" where
  "connection sid q st =
     (if truthy_str (q_id q) then
        onConnection q
          (if truthy_str (q_room q) \<and> q_state q = Some ''Opened''
           then exposeOpenRooms (join sid (str_of (q_room q)) st)
           else st)
      else (None, disconnect sid st))"

subsection \<open>The listeners\<close>

text \<open>
  A listener gets the payload and the acknowledgment callback; the calls modelled come
  with a callback. Its result is the list of the values it passes to the callback, in
  order, then the exception its \<open>try\<close> caught (it is logged and nothing more),
  then the state.
\<close>

type_synonym reply = "jsval list \<times> js_error option \<times> server"

definition onOpenRoom :: "string \<Rightarrow> query \<Rightarrow> open_data \<Rightarrow> server \<Rightarrow> reply" where
  "onOpenRoom sid q d st =
     (let st1 = exposeOpenRooms (join sid (o_room d) st)
      in case handlePendings q st1 of
           (Inl e, st2) \<Rightarrow> ([], Some e, st2)
         | (Inr msg, st2) \<Rightarrow>
             (let assertion = roomIdsIncludeSocket st2 (o_room d) (o_id d)
              in ([JObj [(''event'', JStr ''onOpenRoom''), (''room'', JStr (o_room d)),
                         (''result'', assertion)]], None, st2)))"

definition js_not :: "jsval \<Rightarrow> jsval" where
  "js_not v = JBool (\<not> truthy v)"

definition onCloseRoom :: "string \<Rightarrow> open_data \<Rightarrow> server \<Rightarrow> reply" where
  "onCloseRoom sid d st =
     (let st1 = leave sid (o_room d) st;
          assertion = js_not (roomIdsIncludeSocket st1 (o_room d) (o_id d))
      in ([JObj [(''event'', JStr ''onCloseRoom''), (''room'', JStr (o_room d)),
                 (''result'', assertion)]], None, st1))"

definition onEnterRoom :: "string \<Rightarrow> enter_data \<Rightarrow> server \<Rightarrow> reply" where
  "onEnterRoom sid d st =
     (let name = r_room (e_room d);
          refused = (if rooms_at st name = Missing
                     then [JObj [(''error'', JStr ''Room must be open before you can enter''),
                                 (''on'', JStr ''server.onEnterRoom'')]]
                     else []);
          st1 = join sid name st;
          assertion = roomIdsIncludeSocket st1 name sid;
          st2 = emit (ToGroup (JStr name) (JStr ''checkIn'')
                        (JObj [(''visitor'', e_visitor d), (''sentTime'', e_sentTime d),
                               (''room'', room_ref_js (e_room d)), (''message'', JStr ''Entered''),
                               (''socketId'', JStr sid)])) st1
      in case getOccupancy st2 name of
           Inl e \<Rightarrow> (refused, Some e, st2)
         | Inr occupants \<Rightarrow>
             (if truthy occupants then
                (refused @ [JObj [(''event'', JStr ''onEnterRoom''), (''room'', room_ref_js (e_room d)),
                                  (''occupants'', occupants), (''result'', assertion),
                                  (''emits'', JStr ''checkIn'')]], None, st2)
              else
                (refused @ [JObj [(''event'', JStr ''onEnterRoom''), (''room'', room_ref_js (e_room d)),
                                  (''result'', JStr (''Could not enter Room '' @ name)),
                                  (''emits'', JStr ''nothing'')]], None, st2)))"

text \<open>
  \<open>onLeaveRoom\<close> has no \<open>try\<close>: reading \<open>visitor.visitor\<close> of a payload
  without visitor is an uncaught exception. Its acknowledgment is a text that ends with
  the time of day, \<open>now\<close>.
\<close>

definition onLeaveRoom :: "string \<Rightarrow> query \<Rightarrow> string \<Rightarrow> leave_data \<Rightarrow> server
                             \<Rightarrow> js_error + (jsval list \<times> server)" where
  "onLeaveRoom sid q now d st =
     (let name = r_room (l_room d);
          st1 = leave sid name st;
          st2 = emit (ToGroup (JStr name) (JStr ''checkOut'')
                        (JObj [(''visitor'', l_visitor d), (''sentTime'', l_sentTime d),
                               (''room'', room_ref_js (l_room d)), (''message'', l_message d)])) st1;
          st3 = snd (updateOccupancy st2 name)
      in case get_prop (l_visitor d) ''visitor'' of
           Inl e \<Rightarrow> Inl e
         | Inr who \<Rightarrow>
             Inr ([JStr (''Using their own socket '' @ sid @ '', '' @ template who @ '' ''
                         @ (if truthy (roomIdsIncludeSocket st3 name (str_of (q_id q)))
                            then ''did not make it out of'' else ''made it out of'')
                         @ '' Room ['' @ name @ '' '' @ template (r_id (l_room d)) @ ''] on '' @ now)],
                  st3))"

text \<open>
  \<open>onExposureWarning\<close> visits \<open>Object.entries(warnings)\<close>. For a room that is open
  it pushes the result of \<open>S.notifyRoom({ warning: warning, visitor: visitor })\<close>;
  otherwise it pushes \<open>`${roomName} PENDING`\<close> and stores the whole payload under
  the room's name.
\<close>

fun warn_each :: "exposure_data \<Rightarrow> (string \<times> jsval) list \<Rightarrow> jsval list \<Rightarrow> server
                    \<Rightarrow> js_error option \<times> jsval list \<times> server" where
  "warn_each d [] results st = (None, results, st)"
| "warn_each d ((roomName, w) # rest) results st =
     (if isOpen st roomName then
        (case notifyRoom (JObj [(''warning'', JArr [JStr roomName, w]), (''visitor'', x_visitor d)]) st of
           Inl e \<Rightarrow> (Some e, results, st)
         | Inr (r, st') \<Rightarrow> warn_each d rest (results @ [r]) st')
      else
        warn_each d rest (results @ [JStr (roomName @ '' PENDING'')])
          (st\<lparr>pendingWarnings := AList.update roomName (Warning d) (pendingWarnings st)\<rparr>))"

definition onExposureWarning :: "exposure_data \<Rightarrow> server \<Rightarrow> reply" where
  "onExposureWarning d st =
     (case get_prop (x_visitor d) ''visitor'' of
        Inl e \<Rightarrow> ([], Some e, st)
      | Inr name \<Rightarrow>
          (case warn_each d (x_warnings d) [] st of
             (Some e, results, st') \<Rightarrow> ([], Some e, st')
           | (None, results, st') \<Rightarrow>
               ([JObj [(''event'', JStr ''onExposureWarning''), (''result'', JArr (flat results)),
                       (''emit'', JStr ''notifyRoom'')]], None, st')))"

text \<open>
  \<open>onAlertVisitor\<close> calls \<open>S.alertVisitor(data)\<close> when the visitor is on line.
  The class ServerProxy declares no method of that name, so the call raises a
  TypeError, which the handler's \<open>try\<close> catches. When the visitor is off line the
  handler stores the payload and returns a string without calling the acknowledgment.
  A payload without message or visitor is acknowledged with \<open>new error(...)\<close>, where
  \<open>error\<close> is a text formatter: the object so made has no property of its own.
\<close>

definition alertVisitor :: "alert_data \<Rightarrow> server \<Rightarrow> js_error + (jsval \<times> server)" where
  "alertVisitor d st = Inl TypeError"

definition onAlertVisitor :: "alert_data \<Rightarrow> server \<Rightarrow> reply" where
  "onAlertVisitor d st =
     (if \<not> truthy (a_message d) \<or> \<not> truthy_str (a_visitor d) then ([JObj []], None, st)
      else if filter (\<lambda>v. q_visitor (snd v) = a_visitor d) (visitors st) \<noteq> [] then
        (case alertVisitor d st of
           Inl e \<Rightarrow> ([], Some e, st)
         | Inr (result, st') \<Rightarrow> ([result], None, st'))
      else
        ([], None,
         st\<lparr>pendingWarnings := AList.update (str_of (a_visitor d)) (Alert d) (pendingWarnings st)\<rparr>))"

subsection \<open>Runs of the server\<close>

text \<open>
  An event names the socket it comes from; \<open>LeaveRoom\<close> also carries the time of
  day at which it is handled. A listener runs only for a connected socket. A step gives
  \<open>None\<close> when an uncaught exception ends the process. The remaining listeners of
  server.js only read the state.
\<close>

datatype event =
    Connection string query
  | Disconnect string
  | OpenRoom string open_data
  | CloseRoom string open_data
  | EnterRoom string enter_data
  | LeaveRoom string string leave_data
  | ExposureWarning string exposure_data
  | AlertVisitor string alert_data

definition after :: "reply \<Rightarrow> server" where
  "after r = snd (snd r)"

definition acks :: "reply \<Rightarrow> jsval list" where
  "acks r = fst r"

definition caught :: "reply \<Rightarrow> js_error option" where
  "caught r = fst (snd r)"

fun step :: "event \<Rightarrow> server \<Rightarrow> server option" where
  "step (Connection sid q) st =
     (case connection sid q (register sid q st) of
        (Some e, st') \<Rightarrow> None
      | (None, st') \<Rightarrow> Some st')"
| "step (Disconnect sid) st = Some (disconnect sid st)"
| "step (OpenRoom sid d) st =
     (case map_of (sockets st) sid of
        None \<Rightarrow> Some st
      | Some q \<Rightarrow> Some (after (onOpenRoom sid q d st)))"
| "step (CloseRoom sid d) st =
     (case map_of (sockets st) sid of
        None \<Rightarrow> Some st
      | Some q \<Rightarrow> Some (after (onCloseRoom sid d st)))"
| "step (EnterRoom sid d) st =
     (case map_of (sockets st) sid of
        None \<Rightarrow> Some st
      | Some q \<Rightarrow> Some (after (onEnterRoom sid d st)))"
| "step (LeaveRoom sid now d) st =
     (case map_of (sockets st) sid of
        None \<Rightarrow> Some st
      | Some q \<Rightarrow> (case onLeaveRoom sid q now d st of
                    Inl e \<Rightarrow> None
                  | Inr (replies, st') \<Rightarrow> Some st'))"
| "step (ExposureWarning sid d) st =
     (case map_of (sockets st) sid of
        None \<Rightarrow> Some st
      | Some q \<Rightarrow> Some (after (onExposureWarning d st)))"
| "step (AlertVisitor sid d) st =
     (case map_of (sockets st) sid of
        None \<Rightarrow> Some st
      | Some q \<Rightarrow> Some (after (onAlertVisitor d st)))"

fun run :: "event list \<Rightarrow> server \<Rightarrow> server option" where
  "run [] st = Some st"
| "run (ev # evs) st = (case step ev st of None \<Rightarrow> None | Some st' \<Rightarrow> run evs st')"

definition init :: server where
  "init = \<lparr>sockets = [], rooms = [], pendingWarnings = [], emitted = []\<rparr>"

section \<open>The proxy's own cache\<close>

text \<open>
  radar.js, the module of ServerProxy, has a \<open>Map\<close> of its own, also called
  \<open>pendingWarnings\<close>; \<open>sendOrPend\<close> and the \<open>handlePendings\<close> of the class
  work on it and not on the map of server.js. server.js calls neither. They are the
  sibling paths of \<open>onExposureWarning\<close>, \<open>onAlertVisitor\<close> and the
  \<open>handlePendings\<close> of server.js, and are modelled with their map as an explicit
  argument. Its keys are what the callers pass, a socket id or a room name; a key that is
  absent from the payload is \<open>undefined\<close>.
\<close>

type_synonym cache = "(jsval \<times> jsval) list"

record proxy_data =
  p_event :: string
  p_reason :: jsval
  p_visitor :: jsval
  p_room :: "string option"
  p_exposureDates :: jsval

definition opt_js :: "string option \<Rightarrow> jsval" where
  "opt_js x = (case x of None \<Rightarrow> JUndefined | Some s \<Rightarrow> JStr s)"

definition proxy_data_js :: "proxy_data \<Rightarrow> jsval" where
  "proxy_data_js d =
     JObj [(''event'', JStr (p_event d)), (''reason'', p_reason d), (''visitor'', p_visitor d),
           (''room'', opt_js (p_room d)), (''exposureDates'', p_exposureDates d)]"

definition sendOrPend :: "proxy_data \<Rightarrow> server \<Rightarrow> cache
                            \<Rightarrow> js_error + (string option \<times> server \<times> cache)" where
  "sendOrPend d st c =
     (if p_event d = ''exposureAlert'' then
        (case get_prop (p_visitor d) ''id'' of
           Inl e \<Rightarrow> Inl e
         | Inr vid \<Rightarrow>
             (if filter (\<lambda>v. JStr (fst v) = vid) (visitors st) \<noteq> [] then
                (case privateMessage [JStr (p_event d), proxy_data_js d] st of
                   Inl e \<Rightarrow> Inl e
                 | Inr st' \<Rightarrow> Inr (Some ''ALERTED'', st', c))
              else Inr (Some ''PENDING'', st, AList.update vid (proxy_data_js d) c)))
      else if p_event d = ''notifyRoom'' then
        (if filter (\<lambda>v. q_room (snd v) = p_room d) (openRooms st) \<noteq> [] then
           (case privateMessage
                   [JStr (p_event d),
                    JObj [(''room'', opt_js (p_room d)), (''reason'', p_reason d),
                          (''exposureDates'', p_exposureDates d), (''visitor'', p_visitor d)]] st of
              Inl e \<Rightarrow> Inl e
            | Inr st' \<Rightarrow> Inr (Some ''WARNED'', st', c))
         else
           Inr (Some ''PENDING'', st,
                AList.update (opt_js (p_room d))
                  (JObj [(''room'', opt_js (p_room d)), (''reason'', p_reason d),
                         (''visitor'', p_visitor d), (''exposureDates'', p_exposureDates d)]) c))
      else Inr (None, st, c))"

text \<open>
  The proxy's \<open>handlePendings\<close>: both branches run \<open>forEach\<close> over the whole map,
  send each value with \<open>this.privateMessage(event, value)\<close> and delete its key.
\<close>

fun proxy_flush :: "string \<Rightarrow> cache \<Rightarrow> server \<Rightarrow> cache \<Rightarrow> js_error option \<times> server \<times> cache" where
  "proxy_flush ev [] st c = (None, st, c)"
| "proxy_flush ev ((key, v) # rest) st c =
     (case privateMessage [JStr ev, v] st of
        Inl e \<Rightarrow> (Some e, st, c)
      | Inr st' \<Rightarrow> proxy_flush ev rest st' (AList.delete key c))"

definition proxy_handlePendings :: "query \<Rightarrow> server \<Rightarrow> cache
                                      \<Rightarrow> (js_error + string option) \<times> server \<times> cache" where
  "proxy_handlePendings q st c =
     (if truthy_str (q_room q) then
        (if map_of c (opt_js (q_room q)) = None then
           (Inr (Some (''Nothing pending for '' @ str_of (q_room q))), st, c)
         else
           (case proxy_flush ''notifyRoom'' c st c of
              (Some e, st', c') \<Rightarrow> (Inl e, st', c')
            | (None, st', c') \<Rightarrow> (Inr None, st', c')))
      else if truthy_str (q_visitor q) \<or> truthy_str (q_admin q) then
        (if c = [] \<or> map_of c (opt_js (q_id q)) = None then
           (Inr (Some (''Nothing pending for '' @ str_of (q_visitor q))), st, c)
         else
           (case proxy_flush ''exposureAlert'' c st c of
              (Some e, st', c') \<Rightarrow> (Inl e, st', c')
            | (None, st', c') \<Rightarrow> (Inr None, st', c')))
      else (Inr None, st, c))"

section \<open>Invariants of the state\<close>

text \<open>
  Every group of the adapter has at least one member and lists no member twice, and the
  \<open>Map\<close> of pending warnings has one entry per key.
\<close>

definition groups_ok :: "(string \<times> string list) list \<Rightarrow> bool" where
  "groups_ok rs = list_all (\<lambda>g. snd g \<noteq> [] \<and> distinct (snd g)) rs"

definition inv :: "server \<Rightarrow> bool" where
  "inv st = (distinct (map fst (pendingWarnings st)) \<and> groups_ok (rooms st))"

section \<open>The specification's words\<close>

text \<open>
  The specification calls a room open when a connection with the room's identity exists
  and that connection is a member of the group of that name, and it counts the occupants
  of a room as the members of its group less the room's own connection, 0 when the room
  is not open. These two definitions follow its words, to be compared with the code.
\<close>

definition isOpen_spec :: "server \<Rightarrow> string \<Rightarrow> bool" where
  "isOpen_spec st r =
     list_ex (\<lambda>v. q_room (snd v) = Some r \<and> fst v \<in> set (members st r)) (sockets st)"

definition occupancy_spec :: "server \<Rightarrow> string \<Rightarrow> nat" where
  "occupancy_spec st r = (if isOpen_spec st r then length (members st r) - 1 else 0)"

section \<open>Scenarios\<close>

text \<open>
  The room Cafe1 connects on socket r1, the visitors Ann and Bob on a1 and b1. The
  states below are reached by the runs named in the lemmas that follow them.
\<close>

definition cafe1 :: query where
  "cafe1 = \<lparr>q_id = Some ''r1'', q_room = Some ''Cafe1'', q_visitor = None, q_admin = None,
             q_state = None, q_nsp = None\<rparr>"

definition ann :: query where
  "ann = \<lparr>q_id = Some ''a1'', q_room = None, q_visitor = Some ''Ann'', q_admin = None,
           q_state = None, q_nsp = None\<rparr>"

definition bob :: query where
  "bob = \<lparr>q_id = Some ''b1'', q_room = None, q_visitor = Some ''Bob'', q_admin = None,
           q_state = None, q_nsp = None\<rparr>"

definition no_id :: query where
  "no_id = \<lparr>q_id = None, q_room = Some ''Cafe1'', q_visitor = None, q_admin = None,
             q_state = Some ''Opened'', q_nsp = None\<rparr>"

definition cafe1_reopening :: query where
  "cafe1_reopening = \<lparr>q_id = Some ''r1'', q_room = Some ''Cafe1'', q_visitor = None,
                       q_admin = None, q_state = Some ''Opened'', q_nsp = None\<rparr>"

definition open_cafe1 :: open_data where
  "open_cafe1 = \<lparr>o_room = ''Cafe1'', o_id = ''r1''\<rparr>"

definition ann_enters :: enter_data where
  "ann_enters = \<lparr>e_room = \<lparr>r_room = ''Cafe1'', r_id = JStr ''r1'', r_nsp = JUndefined\<rparr>,
                   e_visitor = JStr ''Ann'', e_sentTime = JStr ''09:00''\<rparr>"

definition ann_checkIn :: emission where
  "ann_checkIn =
     ToGroup (JStr ''Cafe1'') (JStr ''checkIn'')
       (JObj [(''visitor'', JStr ''Ann''), (''sentTime'', JStr ''09:00''),
              (''room'', JObj [(''room'', JStr ''Cafe1''), (''id'', JStr ''r1''), (''nsp'', JUndefined)]),
              (''message'', JStr ''Entered''), (''socketId'', JStr ''a1'')])"

definition bob_warning :: exposure_data where
  "bob_warning = \<lparr>x_visitor = JStr ''Bob'',
                    x_warnings = [(''Cafe1'', JArr [JStr ''2021-01-01''])]\<rparr>"


definition bob_two_rooms :: exposure_data where
  "bob_two_rooms = \<lparr>x_visitor = JObj [(''visitor'', JStr ''Bob'')],
                      x_warnings = [(''Cafe1'', JArr [JStr ''2021-01-01'']),
                                    (''Cafe2'', JArr [JStr ''2021-01-02''])]\<rparr>"

definition alert1 :: alert_data where
  "alert1 = \<lparr>a_message = JStr ''first'', a_visitor = Some ''Ann'', a_id = JStr ''r1''\<rparr>"

definition alert2 :: alert_data where
  "alert2 = \<lparr>a_message = JStr ''second'', a_visitor = Some ''Ann'', a_id = JStr ''r1''\<rparr>"

definition ann_online :: server where
  "ann_online = \<lparr>sockets = [(''a1'', ann)], rooms = [(''a1'', [''a1''])], pendingWarnings = [],
                   emitted = [OpenRoomsExposed []]\<rparr>"

definition cafe1_online :: server where
  "cafe1_online = \<lparr>sockets = [(''r1'', cafe1)], rooms = [(''r1'', [''r1''])], pendingWarnings = [],
                     emitted = [OpenRoomsExposed []]\<rparr>"

definition cafe1_and_ann :: server where
  "cafe1_and_ann = \<lparr>sockets = [(''r1'', cafe1), (''a1'', ann)],
                      rooms = [(''r1'', [''r1'']), (''a1'', [''a1''])], pendingWarnings = [],
                      emitted = [OpenRoomsExposed [], OpenRoomsExposed []]\<rparr>"

definition cafe1_and_bob :: server where
  "cafe1_and_bob = \<lparr>sockets = [(''r1'', cafe1), (''b1'', bob)],
                      rooms = [(''r1'', [''r1'']), (''b1'', [''b1''])], pendingWarnings = [],
                      emitted = [OpenRoomsExposed [], OpenRoomsExposed []]\<rparr>"

definition cafe1_open_bob :: server where
  "cafe1_open_bob = \<lparr>sockets = [(''r1'', cafe1), (''b1'', bob)],
                       rooms = [(''r1'', [''r1'']), (''b1'', [''b1'']), (''Cafe1'', [''r1''])],
                       pendingWarnings = [],
                       emitted = [OpenRoomsExposed [], OpenRoomsExposed [],
                                  OpenRoomsExposed [(''r1'', cafe1)]]\<rparr>"

definition ann_inside :: server where
  "ann_inside = \<lparr>sockets = [(''r1'', cafe1), (''a1'', ann)],
                   rooms = [(''r1'', [''r1'']), (''a1'', [''a1'']), (''Cafe1'', [''r1'', ''a1''])],
                   pendingWarnings = [],
                   emitted = [OpenRoomsExposed [], OpenRoomsExposed [],
                              OpenRoomsExposed [(''r1'', cafe1)], ann_checkIn]\<rparr>"

definition ann_left_inside :: server where
  "ann_left_inside = \<lparr>sockets = [(''r1'', cafe1), (''a1'', ann)],
                        rooms = [(''r1'', [''r1'']), (''a1'', [''a1'']), (''Cafe1'', [''a1''])],
                        pendingWarnings = [],
                        emitted = [OpenRoomsExposed [], OpenRoomsExposed [],
                                   OpenRoomsExposed [(''r1'', cafe1)], ann_checkIn]\<rparr>"

definition bob_warned :: server where
  "bob_warned = cafe1_and_bob\<lparr>pendingWarnings := [(''Cafe1'', Warning bob_warning)]\<rparr>"

definition bob_warned_two :: server where
  "bob_warned_two = cafe1_and_bob\<lparr>pendingWarnings := [(''Cafe1'', Warning bob_two_rooms),
                                                       (''Cafe2'', Warning bob_two_rooms)]\<rparr>"

definition ann_alerted :: server where
  "ann_alerted = cafe1_online\<lparr>pendingWarnings := [(''Ann'', Alert alert1)]\<rparr>"

definition ann_alerted_twice :: server where
  "ann_alerted_twice = cafe1_online\<lparr>pendingWarnings := [(''Ann'', Alert alert2)]\<rparr>"

definition both_pending :: server where
  "both_pending = cafe1_and_bob\<lparr>pendingWarnings := [(''Cafe1'', Warning bob_warning),
                                                     (''Ann'', Alert alert1)]\<rparr>"

section \<open>What the flush and the listeners leave unchanged\<close>

lemma privateMessage_string:
  "privateMessage [ev, JStr s, m] st = Inr (emit (ToGroup JUndefined ev (JStr s)) st)"
  by (simp add: privateMessage_def arg_def)

lemma flush_rooms_Cons:
  "flush_rooms qroom ((key, v) # rest) st =
     (case exposureDates_of v key of
        Inl e \<Rightarrow> (Some e, st)
      | Inr dates \<Rightarrow>
          flush_rooms qroom rest
            (st\<lparr>emitted := emitted st @ [ToGroup JUndefined (JStr qroom) (JStr ''notifyRoom'')],
                pendingWarnings := AList.delete key (pendingWarnings st)\<rparr>))"
  by (simp add: privateMessage_string emit_def split: sum.splits)

lemma flush_rooms_frame:
  "sockets (snd (flush_rooms qroom es st)) = sockets st \<and>
   rooms (snd (flush_rooms qroom es st)) = rooms st"
proof (induction es arbitrary: st)
  case Nil
  show ?case by simp
next
  case (Cons a es)
  obtain key v where a: "a = (key, v)" by (cases a)
  show ?case
    unfolding a flush_rooms_Cons by (cases "exposureDates_of v key") (simp_all add: Cons.IH)
qed

lemma flush_rooms_keys:
  "fst (flush_rooms qroom es st) = None \<Longrightarrow>
     fst ` set (pendingWarnings (snd (flush_rooms qroom es st)))
       \<subseteq> fst ` set (pendingWarnings st) - fst ` set es"
proof (induction es arbitrary: st)
  case Nil
  show ?case by simp
next
  case (Cons a es)
  obtain key v where a: "a = (key, v)" by (cases a)
  show ?case
  proof (cases "exposureDates_of v key")
    case (Inl e)
    with Cons.prems show ?thesis by (simp add: a flush_rooms_Cons del: flush_rooms.simps(2))
  next
    case (Inr dates)
    let ?st1 = "st\<lparr>emitted := emitted st @ [ToGroup JUndefined (JStr qroom) (JStr ''notifyRoom'')],
                    pendingWarnings := AList.delete key (pendingWarnings st)\<rparr>"
    have eq: "flush_rooms qroom (a # es) st = flush_rooms qroom es ?st1"
      by (simp add: a flush_rooms_Cons Inr del: flush_rooms.simps(2))
    have "fst (flush_rooms qroom es ?st1) = None"
      using Cons.prems eq by simp
    then have "fst ` set (pendingWarnings (snd (flush_rooms qroom es ?st1)))
                 \<subseteq> fst ` set (pendingWarnings ?st1) - fst ` set es"
      by (rule Cons.IH)
    moreover have "fst ` set (pendingWarnings ?st1) \<subseteq> fst ` set (pendingWarnings st) - {key}"
      using delete_notin_dom [of key "pendingWarnings st"] dom_delete_subset [of key "pendingWarnings st"]
      by auto
    moreover have "fst ` set (a # es) = insert key (fst ` set es)"
      by (simp add: a)
    ultimately show ?thesis
      unfolding eq by (simp only:) blast
  qed
qed

lemma flush_rooms_emitted:
  "fst (flush_rooms qroom es st) = None \<Longrightarrow>
     emitted (snd (flush_rooms qroom es st))
       = emitted st @ replicate (length es) (ToGroup JUndefined (JStr qroom) (JStr ''notifyRoom''))"
proof (induction es arbitrary: st)
  case Nil
  show ?case by simp
next
  case (Cons a es)
  obtain key v where a: "a = (key, v)" by (cases a)
  show ?case
  proof (cases "exposureDates_of v key")
    case (Inl e)
    with Cons.prems show ?thesis by (simp add: a flush_rooms_Cons del: flush_rooms.simps(2))
  next
    case (Inr dates)
    with Cons.prems show ?thesis
      by (simp add: a flush_rooms_Cons Cons.IH replicate_append_same del: flush_rooms.simps(2))
  qed
qed

lemma flush_rooms_distinct:
  "distinct (map fst (pendingWarnings st)) \<Longrightarrow>
     distinct (map fst (pendingWarnings (snd (flush_rooms qroom es st))))"
proof (induction es arbitrary: st)
  case Nil
  then show ?case by simp
next
  case (Cons a es)
  obtain key v where a: "a = (key, v)" by (cases a)
  show ?case
    unfolding a flush_rooms_Cons
    by (cases "exposureDates_of v key") (simp_all add: Cons.IH Cons.prems distinct_delete)
qed

lemma flush_visitors_frame:
  "snd (flush_visitors qid es st) = st"
  by (cases es) auto

lemma snd_flush_result:
  "snd (case p of (Some e, st') \<Rightarrow> (Inl e, st') | (None, st') \<Rightarrow> (Inr None, st')) = snd p"
  by (cases p) (auto split: option.splits)

lemma snd_handlePendings:
  "snd (handlePendings q st) =
     (if truthy_str (q_room q) then
        (if has_pending st (q_room q)
         then snd (flush_rooms (str_of (q_room q)) (pendingWarnings st) st) else st)
      else st)"
  by (simp add: handlePendings_def snd_flush_result flush_visitors_frame)

lemma handlePendings_frame:
  "sockets (snd (handlePendings q st)) = sockets st \<and> rooms (snd (handlePendings q st)) = rooms st"
  by (simp add: snd_handlePendings flush_rooms_frame)

lemma handlePendings_distinct:
  "distinct (map fst (pendingWarnings st)) \<Longrightarrow>
     distinct (map fst (pendingWarnings (snd (handlePendings q st))))"
  by (simp add: snd_handlePendings flush_rooms_distinct)


lemma handlePendings_room_flush:
  assumes "truthy_str (q_room q)" "has_pending st (q_room q)" "fst (handlePendings q st) = Inr m"
  shows "fst (flush_rooms (str_of (q_room q)) (pendingWarnings st) st) = None
         \<and> snd (handlePendings q st) = snd (flush_rooms (str_of (q_room q)) (pendingWarnings st) st)"
proof (cases "flush_rooms (str_of (q_room q)) (pendingWarnings st) st")
  case (Pair e st')
  with assms show ?thesis
    by (cases e) (simp_all add: handlePendings_def)
qed

lemma notifyRoom_warning:
  "notifyRoom (JObj [(''warning'', w), (''visitor'', v)]) st =
     Inr (JStr ''undefined WARNED'', emit (ToGroup JUndefined JUndefined (JStr ''notifyRoom'')) st)"
  by (simp add: notifyRoom_def privateMessage_string)

lemma warn_each_Cons:
  "warn_each d ((roomName, w) # rest) results st =
     (if isOpen st roomName then
        warn_each d rest (results @ [JStr ''undefined WARNED''])
          (emit (ToGroup JUndefined JUndefined (JStr ''notifyRoom'')) st)
      else
        warn_each d rest (results @ [JStr (roomName @ '' PENDING'')])
          (st\<lparr>pendingWarnings := AList.update roomName (Warning d) (pendingWarnings st)\<rparr>))"
  by (simp add: notifyRoom_warning)

lemma warn_each_frame:
  "fst (warn_each d ws results st) = None \<and>
   sockets (snd (snd (warn_each d ws results st))) = sockets st \<and>
   rooms (snd (snd (warn_each d ws results st))) = rooms st"
proof (induction ws arbitrary: results st)
  case Nil
  show ?case by simp
next
  case (Cons a ws)
  obtain roomName w where a: "a = (roomName, w)" by (cases a)
  show ?case
    unfolding a warn_each_Cons by (simp add: Cons.IH emit_def)
qed

lemma warn_each_distinct:
  "distinct (map fst (pendingWarnings st)) \<Longrightarrow>
     distinct (map fst (pendingWarnings (snd (snd (warn_each d ws results st)))))"
proof (induction ws arbitrary: results st)
  case Nil
  then show ?case by simp
next
  case (Cons a ws)
  obtain roomName w where a: "a = (roomName, w)" by (cases a)
  show ?case
    unfolding a warn_each_Cons by (simp add: Cons.IH Cons.prems emit_def distinct_update)
qed

lemma after_onExposureWarning:
  "after (onExposureWarning d st) =
     (case get_prop (x_visitor d) ''visitor'' of
        Inl e \<Rightarrow> st
      | Inr name \<Rightarrow> snd (snd (warn_each d (x_warnings d) [] st)))"
  by (simp add: onExposureWarning_def after_def split: sum.splits prod.splits option.splits)

lemma set_update_subset: "set (AList.update k v al) \<subseteq> insert (k, v) (set al)"
  by (induction al) auto

lemma set_delete_subset: "set (AList.delete k al) \<subseteq> set al"
  by (auto simp: AList.delete_eq)

lemma groups_ok_update:
  "groups_ok rs \<Longrightarrow> ms \<noteq> [] \<Longrightarrow> distinct ms \<Longrightarrow> groups_ok (AList.update name ms rs)"
  using set_update_subset [of name ms rs] by (auto simp: groups_ok_def list_all_iff)

lemma groups_ok_delete: "groups_ok rs \<Longrightarrow> groups_ok (AList.delete name rs)"
  using set_delete_subset [of name rs] by (auto simp: groups_ok_def list_all_iff)

lemma groups_ok_lookup:
  "groups_ok rs \<Longrightarrow> map_of rs name = Some ms \<Longrightarrow> ms \<noteq> [] \<and> distinct ms"
  by (auto simp: groups_ok_def list_all_iff dest!: map_of_SomeD)

lemma join_groups_ok: "groups_ok (rooms st) \<Longrightarrow> groups_ok (rooms (join sid name st))"
proof -
  assume ok: "groups_ok (rooms st)"
  let ?ms = "members st name"
  have d: "distinct ?ms"
    using groups_ok_lookup [OF ok, of name] by (cases "map_of (rooms st) name") (simp_all add: members_def)
  have "groups_ok (AList.update name (if sid \<in> set ?ms then ?ms else ?ms @ [sid]) (rooms st))"
  proof (rule groups_ok_update [OF ok])
    show "(if sid \<in> set ?ms then ?ms else ?ms @ [sid]) \<noteq> []" by auto
    show "distinct (if sid \<in> set ?ms then ?ms else ?ms @ [sid])" using d by simp
  qed
  then show ?thesis by (simp add: join_def Let_def)
qed

lemma leave_groups_ok: "groups_ok (rooms st) \<Longrightarrow> groups_ok (rooms (leave sid name st))"
proof (cases "map_of (rooms st) name")
  case None
  assume "groups_ok (rooms st)"
  then show ?thesis by (simp add: leave_def None)
next
  case (Some ms)
  assume ok: "groups_ok (rooms st)"
  have d: "distinct (removeAll sid ms)"
    using groups_ok_lookup [OF ok Some] by (simp add: distinct_removeAll)
  show ?thesis
  proof (cases "removeAll sid ms = []")
    case True
    then show ?thesis by (simp add: leave_def Some Let_def groups_ok_delete [OF ok])
  next
    case False
    then show ?thesis by (simp add: leave_def Some Let_def groups_ok_update [OF ok False d])
  qed
qed

lemma leaveAll_groups_ok: "groups_ok rs \<Longrightarrow> groups_ok (leaveAll sid rs)"
  by (auto simp: groups_ok_def leaveAll_def list_all_iff distinct_removeAll)

lemma join_frame:
  "pendingWarnings (join sid name st) = pendingWarnings st \<and> sockets (join sid name st) = sockets st
   \<and> emitted (join sid name st) = emitted st"
  by (simp add: join_def Let_def)

lemma leave_frame:
  "pendingWarnings (leave sid name st) = pendingWarnings st \<and> sockets (leave sid name st) = sockets st
   \<and> emitted (leave sid name st) = emitted st"
  by (simp add: leave_def Let_def split: option.splits)

lemma inv_join: "inv st \<Longrightarrow> inv (join sid name st)"
  by (simp add: inv_def join_groups_ok join_frame)

lemma inv_emit: "inv (emit e st) = inv st"
  by (simp add: inv_def emit_def)

lemma inv_exposeOpenRooms: "inv (exposeOpenRooms st) = inv st"
  by (simp add: exposeOpenRooms_def inv_emit)

lemma inv_handlePendings: "inv st \<Longrightarrow> inv (snd (handlePendings q st))"
  by (simp add: inv_def handlePendings_distinct handlePendings_frame)

lemma inv_register: "inv st \<Longrightarrow> inv (register sid q st)"
  unfolding register_def by (rule inv_join) (simp add: inv_def)

lemma inv_disconnect: "inv st \<Longrightarrow> inv (disconnect sid st)"
  by (simp add: inv_def disconnect_def leaveAll_groups_ok)

lemma snd_onConnection:
  "fst (onConnection q st) = None \<Longrightarrow> snd (onConnection q st) = exposeOpenRooms (snd (handlePendings q st))"
  by (auto simp: onConnection_def split: prod.splits sum.splits)

lemma inv_connection:
  "inv st \<Longrightarrow> fst (connection sid q st) = None \<Longrightarrow> inv (snd (connection sid q st))"
proof -
  assume i: "inv st" and ok: "fst (connection sid q st) = None"
  show ?thesis
  proof (cases "truthy_str (q_id q)")
    case False
    then show ?thesis by (simp add: connection_def inv_disconnect [OF i])
  next
    case True
    let ?st1 = "if truthy_str (q_room q) \<and> q_state q = Some ''Opened''
                then exposeOpenRooms (join sid (str_of (q_room q)) st) else st"
    have c: "connection sid q st = onConnection q ?st1"
      by (simp add: connection_def True)
    have "inv ?st1"
      by (simp add: inv_exposeOpenRooms inv_join [OF i] i)
    then have "inv (exposeOpenRooms (snd (handlePendings q ?st1)))"
      by (simp only: inv_exposeOpenRooms inv_handlePendings)
    moreover have "snd (onConnection q ?st1) = exposeOpenRooms (snd (handlePendings q ?st1))"
      using ok unfolding c by (rule snd_onConnection)
    ultimately show ?thesis by (simp only: c)
  qed
qed

lemma after_onOpenRoom:
  "after (onOpenRoom sid q d st) = snd (handlePendings q (exposeOpenRooms (join sid (o_room d) st)))"
  by (simp add: onOpenRoom_def after_def Let_def split: prod.splits sum.splits)

lemma inv_onOpenRoom: "inv st \<Longrightarrow> inv (after (onOpenRoom sid q d st))"
  by (simp add: after_onOpenRoom inv_handlePendings inv_exposeOpenRooms inv_join)

lemma inv_onCloseRoom: "inv st \<Longrightarrow> inv (after (onCloseRoom sid d st))"
  by (simp add: onCloseRoom_def after_def Let_def inv_def leave_groups_ok leave_frame)

lemma after_onEnterRoom:
  "after (onEnterRoom sid d st) =
     emit (ToGroup (JStr (r_room (e_room d))) (JStr ''checkIn'')
             (JObj [(''visitor'', e_visitor d), (''sentTime'', e_sentTime d),
                    (''room'', room_ref_js (e_room d)), (''message'', JStr ''Entered''),
                    (''socketId'', JStr sid)]))
       (join sid (r_room (e_room d)) st)"
  by (simp add: onEnterRoom_def after_def Let_def split: sum.splits)

lemma inv_onEnterRoom: "inv st \<Longrightarrow> inv (after (onEnterRoom sid d st))"
  by (simp add: after_onEnterRoom inv_emit inv_join)

lemma inv_updateOccupancy: "inv (snd (updateOccupancy st room)) = inv st"
  by (simp add: updateOccupancy_def Let_def inv_emit)

lemma inv_onLeaveRoom:
  "inv st \<Longrightarrow> onLeaveRoom sid q now d st = Inr (replies, st') \<Longrightarrow> inv st'"
proof -
  assume i: "inv st" and r: "onLeaveRoom sid q now d st = Inr (replies, st')"
  let ?name = "r_room (l_room d)"
  let ?st2 = "emit (ToGroup (JStr ?name) (JStr ''checkOut'')
                      (JObj [(''visitor'', l_visitor d), (''sentTime'', l_sentTime d),
                             (''room'', room_ref_js (l_room d)), (''message'', l_message d)]))
                (leave sid ?name st)"
  from r have "st' = snd (updateOccupancy ?st2 ?name)"
    by (cases "get_prop (l_visitor d) ''visitor''") (simp_all add: onLeaveRoom_def Let_def)
  moreover have "inv (leave sid ?name st)"
    using i by (simp add: inv_def leave_groups_ok leave_frame)
  ultimately show ?thesis
    by (simp add: inv_updateOccupancy inv_emit)
qed

lemma inv_onExposureWarning: "inv st \<Longrightarrow> inv (after (onExposureWarning d st))"
  by (simp add: after_onExposureWarning inv_def warn_each_distinct warn_each_frame split: sum.splits)

lemma inv_onAlertVisitor: "inv st \<Longrightarrow> inv (after (onAlertVisitor d st))"
  by (simp add: onAlertVisitor_def alertVisitor_def after_def inv_def distinct_update)

lemma inv_step: "inv st \<Longrightarrow> step ev st = Some st' \<Longrightarrow> inv st'"
proof (cases ev)
  case (Connection sid q)
  assume i: "inv st" and s: "step ev st = Some st'"
  from s have "fst (connection sid q (register sid q st)) = None \<and>
               st' = snd (connection sid q (register sid q st))"
    by (cases "connection sid q (register sid q st)") (auto simp: Connection split: option.splits)
  then show ?thesis
    using inv_connection [OF inv_register [OF i]] by simp
next
  case (Disconnect sid)
  assume "inv st" "step ev st = Some st'"
  then show ?thesis by (auto simp: Disconnect inv_disconnect)
next
  case (OpenRoom sid d)
  assume "inv st" "step ev st = Some st'"
  then show ?thesis
    by (cases "map_of (sockets st) sid") (auto simp: OpenRoom inv_onOpenRoom)
next
  case (CloseRoom sid d)
  assume "inv st" "step ev st = Some st'"
  then show ?thesis
    by (cases "map_of (sockets st) sid") (auto simp: CloseRoom inv_onCloseRoom)
next
  case (EnterRoom sid d)
  assume "inv st" "step ev st = Some st'"
  then show ?thesis
    by (cases "map_of (sockets st) sid") (auto simp: EnterRoom inv_onEnterRoom)
next
  case (LeaveRoom sid now d)
  assume i: "inv st" and s: "step ev st = Some st'"
  show ?thesis
  proof (cases "map_of (sockets st) sid")
    case None
    with i s show ?thesis by (simp add: LeaveRoom)
  next
    case (Some q)
    with s obtain replies where "onLeaveRoom sid q now d st = Inr (replies, st')"
      by (cases "onLeaveRoom sid q now d st") (auto simp: LeaveRoom)
    then show ?thesis by (rule inv_onLeaveRoom [OF i])
  qed
next
  case (ExposureWarning sid d)
  assume "inv st" "step ev st = Some st'"
  then show ?thesis
    by (cases "map_of (sockets st) sid") (auto simp: ExposureWarning inv_onExposureWarning)
next
  case (AlertVisitor sid d)
  assume "inv st" "step ev st = Some st'"
  then show ?thesis
    by (cases "map_of (sockets st) sid") (auto simp: AlertVisitor inv_onAlertVisitor)
qed

lemma inv_run: "inv st \<Longrightarrow> run evs st = Some st' \<Longrightarrow> inv st'"
proof (induction evs arbitrary: st)
  case Nil
  then show ?case by simp
next
  case (Cons ev evs)
  from Cons.prems(2) obtain st1 where s: "step ev st = Some st1" and r: "run evs st1 = Some st'"
    by (cases "step ev st") auto
  show ?case
    by (rule Cons.IH [OF inv_step [OF Cons.prems(1) s] r])
qed

lemma inv_init: "inv init"
  by (simp add: inv_def init_def groups_ok_def)

section \<open>The cache as a map\<close>

lemma isOpen_cong:
  "sockets st' = sockets st \<Longrightarrow> rooms st' = rooms st \<Longrightarrow> isOpen st' r = isOpen st r"
  by (simp add: isOpen_def openRooms_def available_def has_group_def rooms_at_def)

lemma warn_each_pending:
  "map_of (pendingWarnings (snd (snd (warn_each d ws results st)))) k =
     (if k \<in> fst ` set ws \<and> \<not> isOpen st k then Some (Warning d)
      else map_of (pendingWarnings st) k)"
proof (induction ws arbitrary: results st)
  case Nil
  show ?case by simp
next
  case (Cons a ws)
  obtain roomName w where a: "a = (roomName, w)" by (cases a)
  show ?case
  proof (cases "isOpen st roomName")
    case True
    have "isOpen (emit (ToGroup JUndefined JUndefined (JStr ''notifyRoom'')) st) k = isOpen st k"
      by (rule isOpen_cong) (simp_all add: emit_def)
    with True show ?thesis
      unfolding a warn_each_Cons by (auto simp: Cons.IH emit_def)
  next
    case False
    have "isOpen (st\<lparr>pendingWarnings := AList.update roomName (Warning d) (pendingWarnings st)\<rparr>) k
            = isOpen st k"
      by (rule isOpen_cong) simp_all
    with False show ?thesis
      unfolding a warn_each_Cons by (auto simp: Cons.IH update_conv')
  qed
qed



lemma onAlertVisitor_offline:
  "a_visitor a = Some k \<Longrightarrow> k \<noteq> [] \<Longrightarrow> truthy (a_message a) \<Longrightarrow>
   filter (\<lambda>v. q_visitor (snd v) = Some k) (visitors st) = [] \<Longrightarrow>
     onAlertVisitor a st =
       ([], None, st\<lparr>pendingWarnings := AList.update k (Alert a) (pendingWarnings st)\<rparr>)"
  by (simp add: onAlertVisitor_def truthy_str_def str_of_def)

lemma onAlertVisitor_online:
  "a_visitor a = Some k \<Longrightarrow> k \<noteq> [] \<Longrightarrow> truthy (a_message a) \<Longrightarrow>
   filter (\<lambda>v. q_visitor (snd v) = Some k) (visitors st) \<noteq> [] \<Longrightarrow>
     onAlertVisitor a st = ([], Some TypeError, st)"
  by (simp add: onAlertVisitor_def alertVisitor_def truthy_str_def)

section \<open>Members of a group\<close>

lemma members_join: "sid \<in> set (members (join sid name st) name)"
  by (simp add: members_def join_def Let_def update_conv')

lemma members_join_new:
  "map_of (rooms st) name = None \<Longrightarrow> members (join sid name st) name = [sid]"
  by (simp add: members_def join_def Let_def update_conv')

lemma members_nonempty: "i \<in> set (members st r) \<Longrightarrow> map_of (rooms st) r \<noteq> None"
  by (cases "map_of (rooms st) r") (simp_all add: members_def)

lemma members_lookup: "map_of (rooms st) r = Some ms \<Longrightarrow> members st r = ms"
  by (simp add: members_def)

lemma members_no_group: "map_of (rooms st) r = None \<Longrightarrow> members st r = []"
  by (simp add: members_def)

lemma rooms_at_Missing:
  "rooms_at st name = Missing \<longleftrightarrow> map_of (rooms st) name = None \<and> name \<notin> set proto_names"
  by (simp add: rooms_at_def split: option.splits)

lemma rooms_at_join: "rooms_at (join sid name st) name \<noteq> Missing"
  by (simp add: rooms_at_def join_def Let_def update_conv')

lemma rooms_at_Group: "map_of (rooms st) name = Some ms \<Longrightarrow> rooms_at st name = Group ms"
  by (simp add: rooms_at_def)

section \<open>A visitor's flush\<close>

lemma has_pending_nonempty: "has_pending st k \<Longrightarrow> pendingWarnings st \<noteq> []"
  by (cases k) (auto simp: has_pending_def)

lemma flush_visitors_raises:
  "es \<noteq> [] \<Longrightarrow> flush_visitors qid es st = (Some ReferenceError, st)"
  by (cases es) auto

lemma handlePendings_visitor_raises:
  assumes "truthy_str (q_visitor q)" "\<not> truthy_str (q_room q)" "has_pending st (q_visitor q)"
  shows "handlePendings q st = (Inl ReferenceError, st)"
  using assms has_pending_nonempty [OF assms(3)]
  by (simp add: handlePendings_def flush_visitors_raises)

lemma register_frame:
  "pendingWarnings (register sid q st) = pendingWarnings st
   \<and> emitted (register sid q st) = emitted st"
  by (simp add: register_def join_frame)

section \<open>The sibling paths of the proxy\<close>

text \<open>
  \<open>sendOrPend\<close> answers with the tag of its decision, and stores at most one entry
  per key; the proxy's \<open>handlePendings\<close>, like that of server.js, visits and deletes
  every entry of its map, whatever the key.
\<close>

lemma sendOrPend_alert:
  assumes "p_event d = ''exposureAlert''" "get_prop (p_visitor d) ''id'' = Inr vid"
  shows "sendOrPend d st c =
           (if filter (\<lambda>v. JStr (fst v) = vid) (visitors st) \<noteq> []
            then Inr (Some ''ALERTED'',
                      emit (ToGroup (opt_js (p_room d)) (JStr ''exposureAlert'') (proxy_data_js d)) st, c)
            else Inr (Some ''PENDING'', st, AList.update vid (proxy_data_js d) c))"
  using assms
  by (simp add: sendOrPend_def privateMessage_def arg_def proxy_data_js_def)

lemma sendOrPend_notify:
  assumes "p_event d = ''notifyRoom''"
  shows "sendOrPend d st c =
           (if filter (\<lambda>v. q_room (snd v) = p_room d) (openRooms st) \<noteq> []
            then Inr (Some ''WARNED'',
                      emit (ToGroup (opt_js (p_room d)) (JStr ''notifyRoom'')
                              (JObj [(''room'', opt_js (p_room d)), (''reason'', p_reason d),
                                     (''exposureDates'', p_exposureDates d),
                                     (''visitor'', p_visitor d)])) st, c)
            else Inr (Some ''PENDING'', st,
                      AList.update (opt_js (p_room d))
                        (JObj [(''room'', opt_js (p_room d)), (''reason'', p_reason d),
                               (''visitor'', p_visitor d), (''exposureDates'', p_exposureDates d)]) c))"
  using assms
  by (simp add: sendOrPend_def privateMessage_def arg_def)

lemma sendOrPend_one_entry:
  assumes "distinct (map fst c)" "sendOrPend d st c = Inr (tag, st', c')"
  shows "distinct (map fst c')"
proof (cases "p_event d = ''exposureAlert''")
  case True
  from assms(2) True obtain vid where "get_prop (p_visitor d) ''id'' = Inr vid"
    by (cases "get_prop (p_visitor d) ''id''") (simp_all add: sendOrPend_def)
  from assms sendOrPend_alert [OF True this, of st c] show ?thesis
    by (auto simp: distinct_update split: if_splits)
next
  case False
  show ?thesis
  proof (cases "p_event d = ''notifyRoom''")
    case True
    from assms sendOrPend_notify [OF True, of st c] show ?thesis
      by (auto simp: distinct_update split: if_splits)
  next
    case no: False
    with False assms show ?thesis
      by (simp add: sendOrPend_def)
  qed
qed

lemma proxy_flush_keys:
  "fst (proxy_flush ev es st c) = None \<Longrightarrow>
     fst ` set (snd (snd (proxy_flush ev es st c))) \<subseteq> fst ` set c - fst ` set es"
proof (induction es arbitrary: st c)
  case Nil
  show ?case by simp
next
  case (Cons a es)
  obtain key v where a: "a = (key, v)" by (cases a)
  show ?case
  proof (cases "privateMessage [JStr ev, v] st")
    case (Inl e)
    with Cons.prems show ?thesis by (simp add: a)
  next
    case (Inr st')
    have eq: "proxy_flush ev (a # es) st c = proxy_flush ev es st' (AList.delete key c)"
      by (simp add: a Inr)
    have "fst (proxy_flush ev es st' (AList.delete key c)) = None"
      using Cons.prems eq by simp
    then have "fst ` set (snd (snd (proxy_flush ev es st' (AList.delete key c))))
                 \<subseteq> fst ` set (AList.delete key c) - fst ` set es"
      by (rule Cons.IH)
    moreover have "fst ` set (AList.delete key c) \<subseteq> fst ` set c - {key}"
      using delete_notin_dom [of key c] dom_delete_subset [of key c] by auto
    moreover have "fst ` set (a # es) = insert key (fst ` set es)"
      by (simp add: a)
    ultimately show ?thesis
      unfolding eq by (simp only:) blast
  qed
qed

lemma proxy_handlePendings_empties_the_cache:
  assumes "fst (proxy_handlePendings q st c) = Inr None"
  shows "snd (snd (proxy_handlePendings q st c)) = [] \<or> snd (snd (proxy_handlePendings q st c)) = c"
proof -
  have flushed: "snd (snd (proxy_flush ev c st c)) = []" if "fst (proxy_flush ev c st c) = None" for ev
  proof -
    from proxy_flush_keys [OF that] have "fst ` set (snd (snd (proxy_flush ev c st c))) = {}"
      by simp
    then show ?thesis by simp
  qed
  show ?thesis
  proof (cases "proxy_flush ''notifyRoom'' c st c")
    case room: (fields e1 st1 c1)
    show ?thesis
    proof (cases "proxy_flush ''exposureAlert'' c st c")
      case visitor: (fields e2 st2 c2)
      from assms room visitor flushed [of "''notifyRoom''"] flushed [of "''exposureAlert''"]
      show ?thesis
        by (auto simp: proxy_handlePendings_def split: if_splits option.splits)
    qed
  qed
qed

section \<open>The scenarios are runs of the server\<close>

lemma ann_online_reached:
  "run [Connection ''a1'' ann] init = Some ann_online"
  by code_simp

lemma cafe1_online_reached:
  "run [Connection ''r1'' cafe1] init = Some cafe1_online"
  by code_simp

lemma cafe1_and_ann_reached:
  "run [Connection ''r1'' cafe1, Connection ''a1'' ann] init = Some cafe1_and_ann"
  by code_simp

lemma cafe1_and_bob_reached:
  "run [Connection ''r1'' cafe1, Connection ''b1'' bob] init = Some cafe1_and_bob"
  by code_simp

lemma cafe1_open_bob_reached:
  "run [Connection ''r1'' cafe1, Connection ''b1'' bob, OpenRoom ''r1'' open_cafe1] init
     = Some cafe1_open_bob"
  by code_simp

lemma ann_inside_reached:
  "run [Connection ''r1'' cafe1, Connection ''a1'' ann, OpenRoom ''r1'' open_cafe1,
        EnterRoom ''a1'' ann_enters] init = Some ann_inside"
  by code_simp

lemma ann_left_inside_reached:
  "run [Connection ''r1'' cafe1, Connection ''a1'' ann, OpenRoom ''r1'' open_cafe1,
        EnterRoom ''a1'' ann_enters, CloseRoom ''r1'' open_cafe1] init = Some ann_left_inside"
  by code_simp

lemma bob_warned_reached:
  "run [Connection ''r1'' cafe1, Connection ''b1'' bob, ExposureWarning ''b1'' bob_warning] init
     = Some bob_warned"
  by code_simp


lemma ann_alerted_reached:
  "run [Connection ''r1'' cafe1, AlertVisitor ''r1'' alert1] init = Some ann_alerted"
  by code_simp

lemma ann_alerted_twice_reached:
  "run [Connection ''r1'' cafe1, AlertVisitor ''r1'' alert1, AlertVisitor ''r1'' alert2] init
     = Some ann_alerted_twice"
  by code_simp


section \<open>Entering a room that is not open\<close>

lemma acks_onEnterRoom_new_group:
  assumes "rooms_at st (r_room (e_room d)) = Missing" "r_room (e_room d) \<noteq> []"
  shows "acks (onEnterRoom sid d st) =
           [JObj [(''error'', JStr ''Room must be open before you can enter''),
                  (''on'', JStr ''server.onEnterRoom'')],
            JObj [(''event'', JStr ''onEnterRoom''), (''room'', room_ref_js (e_room d)),
                  (''occupants'', JNum 1), (''result'', JBool True), (''emits'', JStr ''checkIn'')]]"
proof -
  let ?name = "r_room (e_room d)"
  have "map_of (rooms st) ?name = None"
    using assms(1) by (simp add: rooms_at_Missing)
  then have m: "rooms_at (join sid ?name st) ?name = Group [sid]"
    by (simp add: rooms_at_def members_def join_def Let_def update_conv')
  have e: "rooms_at (emit x (join sid ?name st)) ?name = rooms_at (join sid ?name st) ?name" for x
    by (simp add: rooms_at_def emit_def)
  show ?thesis
    using assms m
    by (simp add: onEnterRoom_def acks_def Let_def getOccupancy_def slot_length_def e
                  roomIdsIncludeSocket_def)
qed

lemma acks_onEnterRoom_old_group:
  assumes "rooms_at st (r_room (e_room d)) \<noteq> Missing"
  shows "JObj [(''error'', JStr ''Room must be open before you can enter''),
               (''on'', JStr ''server.onEnterRoom'')] \<notin> set (acks (onEnterRoom sid d st))"
  using assms
  by (simp add: onEnterRoom_def acks_def Let_def split: sum.splits)

text \<open>
  C1. The claim is that an \<open>enterRoom\<close> for a room that is not open is rejected: the
  acknowledgment carries the error, the socket is not joined to the room's group and no
  \<open>checkIn\<close> is broadcast. The handler acknowledges the error when
  \<open>S.rooms[room.room]\<close> is \<open>undefined\<close>, but it has no \<open>return\<close> after
  that: whatever the room, the socket ends up a member of the group, \<open>checkIn\<close> is
  sent to the group, and where the error was acknowledged a second acknowledgment
  reports one occupant and success. When that read finds something (other visitors are
  in the group, or the name is one the table inherits) no error is acknowledged at all,
  whether or not the room is open.
\<close>

theorem enterRoom_joins_and_broadcasts_always:
  "sid \<in> set (members (after (onEnterRoom sid d st)) (r_room (e_room d)))
   \<and> emitted (after (onEnterRoom sid d st)) =
       emitted st @
         [ToGroup (JStr (r_room (e_room d))) (JStr ''checkIn'')
            (JObj [(''visitor'', e_visitor d), (''sentTime'', e_sentTime d),
                   (''room'', room_ref_js (e_room d)), (''message'', JStr ''Entered''),
                   (''socketId'', JStr sid)])]
   \<and> (rooms_at st (r_room (e_room d)) = Missing \<and> r_room (e_room d) \<noteq> [] \<longrightarrow>
        acks (onEnterRoom sid d st) =
          [JObj [(''error'', JStr ''Room must be open before you can enter''),
                 (''on'', JStr ''server.onEnterRoom'')],
           JObj [(''event'', JStr ''onEnterRoom''), (''room'', room_ref_js (e_room d)),
                 (''occupants'', JNum 1), (''result'', JBool True), (''emits'', JStr ''checkIn'')]])
   \<and> (rooms_at st (r_room (e_room d)) \<noteq> Missing \<longrightarrow>
        JObj [(''error'', JStr ''Room must be open before you can enter''),
              (''on'', JStr ''server.onEnterRoom'')] \<notin> set (acks (onEnterRoom sid d st)))"
proof -
  have "members (after (onEnterRoom sid d st)) (r_room (e_room d))
          = members (join sid (r_room (e_room d)) st) (r_room (e_room d))"
    by (simp add: after_onEnterRoom members_def emit_def)
  then have joined: "sid \<in> set (members (after (onEnterRoom sid d st)) (r_room (e_room d)))"
    by (simp add: members_join)
  have sent: "emitted (after (onEnterRoom sid d st)) =
       emitted st @
         [ToGroup (JStr (r_room (e_room d))) (JStr ''checkIn'')
            (JObj [(''visitor'', e_visitor d), (''sentTime'', e_sentTime d),
                   (''room'', room_ref_js (e_room d)), (''message'', JStr ''Entered''),
                   (''socketId'', JStr sid)])]"
    by (simp add: after_onEnterRoom emit_def join_frame)
  from joined sent acks_onEnterRoom_new_group [of st d sid] acks_onEnterRoom_old_group [of st d sid]
  show ?thesis by blast
qed

theorem enterRoom_joins_and_broadcasts_always_witness:
  "run [Connection ''a1'' ann] init = Some ann_online
   \<and> \<not> isOpen ann_online ''Cafe1''
   \<and> acks (onEnterRoom ''a1'' ann_enters ann_online) =
       [JObj [(''error'', JStr ''Room must be open before you can enter''),
              (''on'', JStr ''server.onEnterRoom'')],
        JObj [(''event'', JStr ''onEnterRoom''),
              (''room'', JObj [(''room'', JStr ''Cafe1''), (''id'', JStr ''r1''), (''nsp'', JUndefined)]),
              (''occupants'', JNum 1), (''result'', JBool True), (''emits'', JStr ''checkIn'')]]
   \<and> ''a1'' \<in> set (members (after (onEnterRoom ''a1'' ann_enters ann_online)) ''Cafe1'')
   \<and> emitted (after (onEnterRoom ''a1'' ann_enters ann_online)) = emitted ann_online @ [ann_checkIn]"
proof -
  have h: "rooms_at ann_online (r_room (e_room ann_enters)) = Missing
           \<and> r_room (e_room ann_enters) \<noteq> []"
    by code_simp
  have n1: "r_room (e_room ann_enters) = ''Cafe1''"
    by code_simp
  have n2: "room_ref_js (e_room ann_enters)
              = JObj [(''room'', JStr ''Cafe1''), (''id'', JStr ''r1''), (''nsp'', JUndefined)]"
    by code_simp
  have n3: "ToGroup (JStr (r_room (e_room ann_enters))) (JStr ''checkIn'')
               (JObj [(''visitor'', e_visitor ann_enters), (''sentTime'', e_sentTime ann_enters),
                      (''room'', room_ref_js (e_room ann_enters)), (''message'', JStr ''Entered''),
                      (''socketId'', JStr ''a1'')]) = ann_checkIn"
    by code_simp
  have c: "\<not> isOpen ann_online ''Cafe1''"
    by code_simp
  note t = enterRoom_joins_and_broadcasts_always [of "''a1''" ann_enters ann_online]
  from t have "''a1'' \<in> set (members (after (onEnterRoom ''a1'' ann_enters ann_online))
                                 (r_room (e_room ann_enters)))"
    by blast
  then have joined: "''a1'' \<in> set (members (after (onEnterRoom ''a1'' ann_enters ann_online)) ''Cafe1'')"
    by (simp only: n1)
  from t have "emitted (after (onEnterRoom ''a1'' ann_enters ann_online)) =
       emitted ann_online @
         [ToGroup (JStr (r_room (e_room ann_enters))) (JStr ''checkIn'')
            (JObj [(''visitor'', e_visitor ann_enters), (''sentTime'', e_sentTime ann_enters),
                   (''room'', room_ref_js (e_room ann_enters)), (''message'', JStr ''Entered''),
                   (''socketId'', JStr ''a1'')])]"
    by blast
  then have sent: "emitted (after (onEnterRoom ''a1'' ann_enters ann_online))
                     = emitted ann_online @ [ann_checkIn]"
    by (simp only: n3)
  from t h have "acks (onEnterRoom ''a1'' ann_enters ann_online) =
          [JObj [(''error'', JStr ''Room must be open before you can enter''),
                 (''on'', JStr ''server.onEnterRoom'')],
           JObj [(''event'', JStr ''onEnterRoom''), (''room'', room_ref_js (e_room ann_enters)),
                 (''occupants'', JNum 1), (''result'', JBool True), (''emits'', JStr ''checkIn'')]]"
    by blast
  then have answered: "acks (onEnterRoom ''a1'' ann_enters ann_online) =
       [JObj [(''error'', JStr ''Room must be open before you can enter''),
              (''on'', JStr ''server.onEnterRoom'')],
        JObj [(''event'', JStr ''onEnterRoom''),
              (''room'', JObj [(''room'', JStr ''Cafe1''), (''id'', JStr ''r1''), (''nsp'', JUndefined)]),
              (''occupants'', JNum 1), (''result'', JBool True), (''emits'', JStr ''checkIn'')]]"
    by (simp only: n2)
  from ann_online_reached c answered joined sent show ?thesis
    by (intro conjI)
qed

section \<open>Which rooms are open\<close>

lemma isOpen_iff:
  "isOpen st r \<longleftrightarrow>
     r \<noteq> [] \<and> (\<exists>v\<in>set (sockets st). q_room (snd v) = Some r) \<and> rooms_at st r \<noteq> Missing"
proof -
  have "isOpen st r \<longleftrightarrow>
          (\<exists>v\<in>set (sockets st). truthy_str (q_room (snd v)) \<and> has_group st (q_room (snd v))
                                   \<and> q_room (snd v) = Some r)"
    by (simp add: isOpen_def openRooms_def available_def filter_empty_conv) blast
  also have "\<dots> \<longleftrightarrow>
          (\<exists>v\<in>set (sockets st). q_room (snd v) = Some r \<and> truthy_str (Some r) \<and> has_group st (Some r))"
    by (rule bex_cong [OF refl]) auto
  also have "\<dots> \<longleftrightarrow>
          r \<noteq> [] \<and> (\<exists>v\<in>set (sockets st). q_room (snd v) = Some r) \<and> rooms_at st r \<noteq> Missing"
    by (auto simp: truthy_str_def has_group_def)
  finally show ?thesis .
qed

lemma isOpen_spec_imp_group:
  "isOpen_spec st r \<Longrightarrow>
     (\<exists>v\<in>set (sockets st). q_room (snd v) = Some r) \<and> map_of (rooms st) r \<noteq> None"
  unfolding isOpen_spec_def list_ex_iff using members_nonempty [of _ st r] by blast

text \<open>
  For a name the table of groups inherits, the read of \<open>openRooms\<close> is truthy without
  any group: a connected room of such a name is reported open as soon as it connects.
\<close>

lemma isOpen_inherited_name:
  "r \<in> set proto_names \<Longrightarrow>
     isOpen st r \<longleftrightarrow> (\<exists>v\<in>set (sockets st). q_room (snd v) = Some r)"
proof -
  assume p: "r \<in> set proto_names"
  then have "r \<noteq> []"
    by (auto simp: proto_names_def)
  moreover from p have "rooms_at st r \<noteq> Missing"
    by (simp add: rooms_at_Missing)
  ultimately show ?thesis
    by (simp add: isOpen_iff)
qed

lemma sockets_disconnect:
  "v \<in> set (sockets (disconnect sid st)) \<Longrightarrow> v \<in> set (sockets st) \<and> fst v \<noteq> sid"
  by (auto simp: disconnect_def AList.delete_eq)

text \<open>
  C2. The claim is that a room is reported open exactly when a connection with the
  room's identity exists and that connection is a member of the group of the room's
  name. \<open>openRooms\<close> does not look at who the members are.

  As the code has it, for every room name \<open>r\<close> that is not one of the names every
  object inherits: \<open>r\<close> is reported open exactly when its name is not empty, a
  connection with room identity \<open>r\<close> exists, and a group named \<open>r\<close> exists. For
  every name: a room whose own connection is in its group is open; and once no
  connection but \<open>sid\<close> has the room identity \<open>r\<close>, the room is no longer open
  after \<open>sid\<close> disconnects.
\<close>

theorem isOpen_iff_room_connection_and_group:
  "(r \<notin> set proto_names \<longrightarrow>
      (isOpen st r \<longleftrightarrow>
         r \<noteq> [] \<and> (\<exists>v\<in>set (sockets st). q_room (snd v) = Some r) \<and> map_of (rooms st) r \<noteq> None))
   \<and> (isOpen_spec st r \<and> r \<noteq> [] \<longrightarrow> isOpen st r)
   \<and> ((\<forall>v\<in>set (sockets st). q_room (snd v) = Some r \<longrightarrow> fst v = sid)
        \<longrightarrow> \<not> isOpen (disconnect sid st) r)"
proof -
  have i: "isOpen st r \<longleftrightarrow>
             r \<noteq> [] \<and> (\<exists>v\<in>set (sockets st). q_room (snd v) = Some r) \<and> map_of (rooms st) r \<noteq> None"
    if "r \<notin> set proto_names"
    using that by (simp add: isOpen_iff rooms_at_Missing)
  have a: "isOpen_spec st r \<and> r \<noteq> [] \<longrightarrow> isOpen st r"
    using isOpen_spec_imp_group [of st r] by (auto simp: isOpen_iff rooms_at_Missing)
  have b: "\<not> isOpen (disconnect sid st) r"
    if only: "\<forall>v\<in>set (sockets st). q_room (snd v) = Some r \<longrightarrow> fst v = sid"
  proof
    assume "isOpen (disconnect sid st) r"
    then obtain v where "v \<in> set (sockets (disconnect sid st))" "q_room (snd v) = Some r"
      by (auto simp: isOpen_iff)
    with sockets_disconnect [of v sid st] only show False
      by blast
  qed
  from i a b show ?thesis by blast
qed

theorem isOpen_iff_room_connection_and_group_witness:
  "run [Connection ''r1'' cafe1, Connection ''b1'' bob, OpenRoom ''r1'' open_cafe1] init
     = Some cafe1_open_bob
   \<and> ''Cafe1'' \<notin> set proto_names
   \<and> map_of (rooms cafe1_open_bob) ''Cafe1'' = Some [''r1'']
   \<and> isOpen_spec cafe1_open_bob ''Cafe1''
   \<and> isOpen cafe1_open_bob ''Cafe1''
   \<and> \<not> isOpen cafe1_and_bob ''Cafe1''
   \<and> \<not> isOpen (disconnect ''r1'' cafe1_open_bob) ''Cafe1''"
proof -
  have n: "''Cafe1'' \<notin> set proto_names"
    by code_simp
  have g: "map_of (rooms cafe1_open_bob) ''Cafe1'' = Some [''r1'']"
    by code_simp
  have g': "map_of (rooms cafe1_and_bob) ''Cafe1'' = None"
    by code_simp
  have h1: "isOpen_spec cafe1_open_bob ''Cafe1'' \<and> ''Cafe1'' \<noteq> []"
    by code_simp
  have h2: "\<forall>v\<in>set (sockets cafe1_open_bob). q_room (snd v) = Some ''Cafe1'' \<longrightarrow> fst v = ''r1''"
    by code_simp
  note t = isOpen_iff_room_connection_and_group [of "''Cafe1''" cafe1_open_bob "''r1''"]
  note u = isOpen_iff_room_connection_and_group [of "''Cafe1''" cafe1_and_bob "''r1''"]
  from t h1 have o: "isOpen cafe1_open_bob ''Cafe1''"
    by blast
  from u n g' have o': "\<not> isOpen cafe1_and_bob ''Cafe1''"
    by blast
  from t h2 have c: "\<not> isOpen (disconnect ''r1'' cafe1_open_bob) ''Cafe1''"
    by blast
  from cafe1_open_bob_reached n g h1 o o' c show ?thesis
    by blast
qed

text \<open>
  Against the claim as stated: Cafe1 opens, Ann enters, and Cafe1 closes its room, which
  takes its connection out of the group. Ann is still a member, so the group exists and
  Cafe1 is still reported open, though its own connection is no member.
\<close>

theorem isOpen_after_closeRoom_counterexample:
  "\<not> (isOpen ann_left_inside ''Cafe1'' \<longleftrightarrow> isOpen_spec ann_left_inside ''Cafe1'')"
  by code_simp

section \<open>Alerts queued for a visitor who is off line\<close>

text \<open>
  C3. The claim is that a visitor's next connect drains the cache for that visitor and
  delivers one \<open>exposureAlert\<close> for every entry queued, after which nothing remains
  pending for that visitor. \<open>onAlertVisitor\<close> queues the alert of a visitor who is
  off line so as to send it at the next login, and the connection handler does reach
  the flush; but the flush calls \<open>privateMessage(query.id, 'exposureAlert',
  message)\<close>, a name server.js does not bind (the method is \<open>S.privateMessage\<close>).
  So for every visitor with something pending, the connect raises a ReferenceError at
  the first entry: no \<open>exposureAlert\<close> is sent, no entry is removed, and the
  exception, which nothing catches, ends the process.
\<close>

theorem visitor_connect_with_pending_alert_raises:
  assumes "truthy_str (q_id q)" "truthy_str (q_visitor q)" "\<not> truthy_str (q_room q)"
    and "has_pending st (q_visitor q)"
  shows "connection sid q (register sid q st) = (Some ReferenceError, register sid q st)
       \<and> emitted (register sid q st) = emitted st
       \<and> pendingWarnings (register sid q st) = pendingWarnings st
       \<and> step (Connection sid q) st = None"
proof -
  let ?st = "register sid q st"
  have "has_pending ?st (q_visitor q)"
    using assms(4) register_frame [of sid q st] by (simp add: has_pending_def split: option.splits)
  then have "handlePendings q ?st = (Inl ReferenceError, ?st)"
    by (rule handlePendings_visitor_raises [OF assms(2,3)])
  then have c: "connection sid q ?st = (Some ReferenceError, ?st)"
    using assms(1,3) by (simp add: connection_def onConnection_def)
  then have "step (Connection sid q) st = None"
    by simp
  with c show ?thesis
    by (simp add: register_frame)
qed

theorem visitor_connect_with_pending_alert_raises_witness:
  "run [Connection ''r1'' cafe1, AlertVisitor ''r1'' alert1] init = Some ann_alerted
   \<and> pendingWarnings ann_alerted = [(''Ann'', Alert alert1)]
   \<and> connection ''a1'' ann (register ''a1'' ann ann_alerted)
       = (Some ReferenceError, register ''a1'' ann ann_alerted)
   \<and> emitted (register ''a1'' ann ann_alerted) = emitted ann_alerted
   \<and> pendingWarnings (register ''a1'' ann ann_alerted) = [(''Ann'', Alert alert1)]
   \<and> step (Connection ''a1'' ann) ann_alerted = None"
proof -
  have h: "truthy_str (q_id ann)" "truthy_str (q_visitor ann)" "\<not> truthy_str (q_room ann)"
          "has_pending ann_alerted (q_visitor ann)"
    by code_simp+
  have p: "pendingWarnings ann_alerted = [(''Ann'', Alert alert1)]"
    by code_simp
  note t = visitor_connect_with_pending_alert_raises [OF h, of "''a1''"]
  from t have a: "connection ''a1'' ann (register ''a1'' ann ann_alerted)
                    = (Some ReferenceError, register ''a1'' ann ann_alerted)"
    by (rule conjunct1)
  from t have b: "emitted (register ''a1'' ann ann_alerted) = emitted ann_alerted"
    by (rule conjunct2 [THEN conjunct1])
  from t have "pendingWarnings (register ''a1'' ann ann_alerted) = pendingWarnings ann_alerted"
    by (rule conjunct2 [THEN conjunct2, THEN conjunct1])
  then have c: "pendingWarnings (register ''a1'' ann ann_alerted) = [(''Ann'', Alert alert1)]"
    by (simp only: p)
  from t have d: "step (Connection ''a1'' ann) ann_alerted = None"
    by (rule conjunct2 [THEN conjunct2, THEN conjunct2])
  from ann_alerted_reached p a b c d show ?thesis
    by (intro conjI)
qed

text \<open>
  With two alerts queued for Ann the cache holds the second alone, the \<open>Map\<close> having
  one entry per key, and Ann's connect ends in the same way.
\<close>

lemma two_alerts_then_connect:
  "run [Connection ''r1'' cafe1, AlertVisitor ''r1'' alert1, AlertVisitor ''r1'' alert2] init
     = Some ann_alerted_twice
   \<and> pendingWarnings ann_alerted_twice = [(''Ann'', Alert alert2)]
   \<and> connection ''a1'' ann (register ''a1'' ann ann_alerted_twice)
       = (Some ReferenceError, register ''a1'' ann ann_alerted_twice)
   \<and> run [Connection ''r1'' cafe1, AlertVisitor ''r1'' alert1, AlertVisitor ''r1'' alert2,
           Connection ''a1'' ann] init = None"
  by code_simp

section \<open>Warning the rooms\<close>

lemma emitted_emit: "emitted (emit e st) = emitted st @ [e]"
  by (simp add: emit_def)

lemma flat_strings: "flat (map (\<lambda>w. JStr (f w)) ws) = map (\<lambda>w. JStr (f w)) ws"
  by (induction ws) simp_all

lemma warn_each_results:
  "fst (snd (warn_each d ws results st)) =
     results @ map (\<lambda>w. JStr (if isOpen st (fst w) then ''undefined WARNED''
                              else fst w @ '' PENDING'')) ws"
proof (induction ws arbitrary: results st)
  case Nil
  show ?case by simp
next
  case (Cons a ws)
  obtain roomName w where a: "a = (roomName, w)" by (cases a)
  let ?sent = "emit (ToGroup JUndefined JUndefined (JStr ''notifyRoom'')) st"
  let ?kept = "st\<lparr>pendingWarnings := AList.update roomName (Warning d) (pendingWarnings st)\<rparr>"
  have o1: "isOpen ?sent = isOpen st"
    by (rule ext, rule isOpen_cong) (simp_all add: emit_def)
  have o2: "isOpen ?kept = isOpen st"
    by (rule ext, rule isOpen_cong) simp_all
  show ?case
    unfolding a warn_each_Cons by (simp add: Cons.IH o1 o2)
qed

lemma warn_each_emitted:
  "emitted (snd (snd (warn_each d ws results st))) =
     emitted st @ replicate (length (filter (\<lambda>w. isOpen st (fst w)) ws))
                    (ToGroup JUndefined JUndefined (JStr ''notifyRoom''))"
proof (induction ws arbitrary: results st)
  case Nil
  show ?case by simp
next
  case (Cons a ws)
  obtain roomName w where a: "a = (roomName, w)" by (cases a)
  let ?sent = "emit (ToGroup JUndefined JUndefined (JStr ''notifyRoom'')) st"
  let ?kept = "st\<lparr>pendingWarnings := AList.update roomName (Warning d) (pendingWarnings st)\<rparr>"
  have o1: "isOpen ?sent = isOpen st"
    by (rule ext, rule isOpen_cong) (simp_all add: emit_def)
  have o2: "isOpen ?kept = isOpen st"
    by (rule ext, rule isOpen_cong) simp_all
  show ?case
    unfolding a warn_each_Cons by (simp add: Cons.IH o1 o2 emitted_emit replicate_append_same)
qed

lemma acks_onExposureWarning:
  assumes "get_prop (x_visitor x) ''visitor'' = Inr n"
  shows "acks (onExposureWarning x st) =
           [JObj [(''event'', JStr ''onExposureWarning''),
                  (''result'', JArr (flat (fst (snd (warn_each x (x_warnings x) [] st))))),
                  (''emit'', JStr ''notifyRoom'')]]"
proof (cases "warn_each x (x_warnings x) [] st")
  case (fields e results st')
  with warn_each_frame [of x "x_warnings x" "[]" st] have "e = None"
    by simp
  with fields assms show ?thesis
    by (simp add: onExposureWarning_def acks_def)
qed

text \<open>
  C4. The claim is that for each room of the warnings map the router, when the room is
  open, delivers a \<open>notifyRoom\<close> event to the room's group and reports WARNED, and
  otherwise queues an entry under the room's name and reports PENDING, the results being
  returned in the acknowledgment. The closed half is what the code does. For an open
  room the handler calls \<open>S.notifyRoom({ warning: warning, visitor: visitor })\<close>;
  that object has no \<open>room\<close>, and \<open>notifyRoom\<close> passes three arguments to the
  two-parameter \<open>privateMessage\<close>: what is emitted is an event whose name is
  \<open>undefined\<close>, carrying the string \<open>notifyRoom\<close>, to the group \<open>undefined\<close>,
  and the result reads \<open>undefined WARNED\<close>. No \<open>notifyRoom\<close> event goes to the
  room's group.
\<close>

theorem exposureWarning_open_room_is_not_notified:
  assumes "x_visitor x \<noteq> JUndefined"
  shows "acks (onExposureWarning x st) =
           [JObj [(''event'', JStr ''onExposureWarning''),
                  (''result'', JArr (map (\<lambda>w. JStr (if isOpen st (fst w) then ''undefined WARNED''
                                                    else fst w @ '' PENDING'')) (x_warnings x))),
                  (''emit'', JStr ''notifyRoom'')]]
       \<and> emitted (after (onExposureWarning x st)) =
           emitted st @ replicate (length (filter (\<lambda>w. isOpen st (fst w)) (x_warnings x)))
                          (ToGroup JUndefined JUndefined (JStr ''notifyRoom''))
       \<and> (k \<in> fst ` set (x_warnings x) \<and> \<not> isOpen st k \<longrightarrow>
            map_of (pendingWarnings (after (onExposureWarning x st))) k = Some (Warning x))"
proof -
  have "\<exists>n. get_prop (x_visitor x) ''visitor'' = Inr n"
    using assms by (cases "x_visitor x") simp_all
  then obtain n where n: "get_prop (x_visitor x) ''visitor'' = Inr n" ..
  have a: "after (onExposureWarning x st) = snd (snd (warn_each x (x_warnings x) [] st))"
    by (simp add: after_onExposureWarning n)
  show ?thesis
    unfolding a acks_onExposureWarning [OF n]
    by (simp add: warn_each_results warn_each_emitted warn_each_pending flat_strings)
qed

theorem exposureWarning_open_room_is_not_notified_witness:
  "run [Connection ''r1'' cafe1, Connection ''b1'' bob, OpenRoom ''r1'' open_cafe1] init
     = Some cafe1_open_bob
   \<and> isOpen cafe1_open_bob ''Cafe1'' \<and> \<not> isOpen cafe1_open_bob ''Cafe2''
   \<and> acks (onExposureWarning bob_two_rooms cafe1_open_bob) =
       [JObj [(''event'', JStr ''onExposureWarning''),
              (''result'', JArr [JStr ''undefined WARNED'', JStr ''Cafe2 PENDING'']),
              (''emit'', JStr ''notifyRoom'')]]
   \<and> emitted (after (onExposureWarning bob_two_rooms cafe1_open_bob)) =
       emitted cafe1_open_bob @ [ToGroup JUndefined JUndefined (JStr ''notifyRoom'')]
   \<and> map_of (pendingWarnings (after (onExposureWarning bob_two_rooms cafe1_open_bob))) ''Cafe2''
       = Some (Warning bob_two_rooms)"
proof -
  have h: "x_visitor bob_two_rooms \<noteq> JUndefined"
    by code_simp
  have o: "isOpen cafe1_open_bob ''Cafe1'' \<and> \<not> isOpen cafe1_open_bob ''Cafe2''"
    by code_simp
  have k: "''Cafe2'' \<in> fst ` set (x_warnings bob_two_rooms) \<and> \<not> isOpen cafe1_open_bob ''Cafe2''"
    by code_simp
  have r: "map (\<lambda>w. JStr (if isOpen cafe1_open_bob (fst w) then ''undefined WARNED''
                           else fst w @ '' PENDING'')) (x_warnings bob_two_rooms)
             = [JStr ''undefined WARNED'', JStr ''Cafe2 PENDING'']"
    by code_simp
  have e: "replicate (length (filter (\<lambda>w. isOpen cafe1_open_bob (fst w)) (x_warnings bob_two_rooms)))
                     (ToGroup JUndefined JUndefined (JStr ''notifyRoom''))
             = [ToGroup JUndefined JUndefined (JStr ''notifyRoom'')]"
    by code_simp
  note t = exposureWarning_open_room_is_not_notified [OF h, of cafe1_open_bob "''Cafe2''"]
  from t have a: "acks (onExposureWarning bob_two_rooms cafe1_open_bob) =
       [JObj [(''event'', JStr ''onExposureWarning''),
              (''result'', JArr [JStr ''undefined WARNED'', JStr ''Cafe2 PENDING'']),
              (''emit'', JStr ''notifyRoom'')]]"
    unfolding r by (rule conjunct1)
  from t have b: "emitted (after (onExposureWarning bob_two_rooms cafe1_open_bob)) =
       emitted cafe1_open_bob @ [ToGroup JUndefined JUndefined (JStr ''notifyRoom'')]"
    unfolding e by (rule conjunct2 [THEN conjunct1])
  have c: "map_of (pendingWarnings (after (onExposureWarning bob_two_rooms cafe1_open_bob))) ''Cafe2''
             = Some (Warning bob_two_rooms)"
    by (rule t [THEN conjunct2, THEN conjunct2, THEN mp, OF k])
  from cafe1_open_bob_reached o a b c show ?thesis
    by (intro conjI) simp_all
qed

section \<open>A pending warning and the room's opening\<close>

text \<open>
  C5. The claim is that after an \<open>exposureWarning\<close> for a closed room has left one
  pending entry, the room's \<open>openRoom\<close> flushes that entry and delivers to the room's
  group one \<open>notifyRoom\<close> event carrying the exposure dates. In the specification's
  own scenario the warning is answered PENDING and leaves one entry, and the opening
  removes it; but \<open>handlePendings\<close> calls
  \<open>S.privateMessage(query.room, 'notifyRoom', message)\<close> with three arguments, so
  what is emitted is an event named \<open>Cafe1\<close> carrying the string \<open>notifyRoom\<close>
  to the group \<open>undefined\<close>. The message with the dates is never sent.
\<close>

theorem openRoom_flush_loses_the_warning:
  "run [Connection ''r1'' cafe1, Connection ''b1'' bob] init = Some cafe1_and_bob
   \<and> \<not> isOpen cafe1_and_bob ''Cafe1''
   \<and> acks (onExposureWarning bob_warning cafe1_and_bob) =
       [JObj [(''event'', JStr ''onExposureWarning''), (''result'', JArr [JStr ''Cafe1 PENDING'']),
              (''emit'', JStr ''notifyRoom'')]]
   \<and> after (onExposureWarning bob_warning cafe1_and_bob) = bob_warned
   \<and> pendingWarnings bob_warned = [(''Cafe1'', Warning bob_warning)]
   \<and> acks (onOpenRoom ''r1'' cafe1 open_cafe1 bob_warned) =
       [JObj [(''event'', JStr ''onOpenRoom''), (''room'', JStr ''Cafe1''), (''result'', JBool True)]]
   \<and> pendingWarnings (after (onOpenRoom ''r1'' cafe1 open_cafe1 bob_warned)) = []
   \<and> members (after (onOpenRoom ''r1'' cafe1 open_cafe1 bob_warned)) ''Cafe1'' = [''r1'']
   \<and> emitted (after (onOpenRoom ''r1'' cafe1 open_cafe1 bob_warned)) =
       emitted bob_warned @
         [OpenRoomsExposed [(''r1'', cafe1)],
          ToGroup JUndefined (JStr ''Cafe1'') (JStr ''notifyRoom'')]"
  by code_simp

section \<open>What a flush removes\<close>

text \<open>
  C6. The claim is that a flush for a key removes and delivers only the entries of that
  key and leaves the entries of every other key as they were. \<open>handlePendings\<close>
  tests that the connecting room has an entry and then runs \<open>forEach\<close> over the
  whole map, deleting each entry it visits.

  As the code has it, for a connection with a room identity: when an entry is pending
  under the room's name and the flush runs to its end, it sends one message for every
  entry of the cache, whatever its key, and leaves the cache empty; when nothing is
  pending under the room's name, nothing is sent and the state is unchanged.
\<close>

theorem handlePendings_room_empties_the_cache:
  assumes "truthy_str (q_room q)" "fst (handlePendings q st) = Inr m"
  shows "(has_pending st (q_room q) \<longrightarrow>
            pendingWarnings (snd (handlePendings q st)) = []
          \<and> length (emitted (snd (handlePendings q st)))
              = length (emitted st) + length (pendingWarnings st))
       \<and> (\<not> has_pending st (q_room q) \<longrightarrow> snd (handlePendings q st) = st)"
proof -
  have a: "pendingWarnings (snd (handlePendings q st)) = []
          \<and> length (emitted (snd (handlePendings q st)))
              = length (emitted st) + length (pendingWarnings st)"
    if p: "has_pending st (q_room q)"
  proof -
    let ?f = "flush_rooms (str_of (q_room q)) (pendingWarnings st) st"
    from handlePendings_room_flush [OF assms(1) p assms(2)]
    have ok: "fst ?f = None" and eq: "snd (handlePendings q st) = snd ?f"
      by simp_all
    from flush_rooms_keys [OF ok] have "fst ` set (pendingWarnings (snd ?f)) = {}"
      by simp
    then have "pendingWarnings (snd ?f) = []"
      by simp
    moreover have "length (emitted (snd ?f)) = length (emitted st) + length (pendingWarnings st)"
      by (simp add: flush_rooms_emitted [OF ok])
    ultimately show ?thesis
      by (simp add: eq)
  qed
  have b: "snd (handlePendings q st) = st" if "\<not> has_pending st (q_room q)"
    using that assms(1) by (simp add: snd_handlePendings)
  from a b show ?thesis by blast
qed

theorem handlePendings_room_empties_the_cache_witness:
  "pendingWarnings bob_warned_two = [(''Cafe1'', Warning bob_two_rooms), (''Cafe2'', Warning bob_two_rooms)]
   \<and> fst (handlePendings cafe1 bob_warned_two) = Inr None
   \<and> pendingWarnings (snd (handlePendings cafe1 bob_warned_two)) = []
   \<and> length (emitted (snd (handlePendings cafe1 bob_warned_two))) = length (emitted bob_warned_two) + 2
   \<and> snd (handlePendings cafe1 cafe1_and_bob) = cafe1_and_bob"
proof -
  have p: "pendingWarnings bob_warned_two
             = [(''Cafe1'', Warning bob_two_rooms), (''Cafe2'', Warning bob_two_rooms)]"
    by code_simp
  have h: "truthy_str (q_room cafe1)"
    by code_simp
  have r1: "fst (handlePendings cafe1 bob_warned_two) = Inr None"
    by code_simp
  have r2: "fst (handlePendings cafe1 cafe1_and_bob) = Inr (Some ''Nothing pending for Cafe1'')"
    by code_simp
  have p1: "has_pending bob_warned_two (q_room cafe1)"
    by code_simp
  have p2: "\<not> has_pending cafe1_and_bob (q_room cafe1)"
    by code_simp
  note t1 = handlePendings_room_empties_the_cache [OF h r1, THEN conjunct1, THEN mp, OF p1]
  note t2 = handlePendings_room_empties_the_cache [OF h r2, THEN conjunct2, THEN mp, OF p2]
  from t1 have e: "pendingWarnings (snd (handlePendings cafe1 bob_warned_two)) = []"
    by (rule conjunct1)
  from t1 have "length (emitted (snd (handlePendings cafe1 bob_warned_two)))
                  = length (emitted bob_warned_two) + length (pendingWarnings bob_warned_two)"
    by (rule conjunct2)
  then have l: "length (emitted (snd (handlePendings cafe1 bob_warned_two)))
                  = length (emitted bob_warned_two) + 2"
    unfolding p by simp
  from p r1 e l t2 show ?thesis
    by (intro conjI)
qed

text \<open>
  Against the claim as stated: Bob's warning for Cafe1 and Cafe2 is pending under both
  names. Cafe1 connects; the flush removes the entry of Cafe2 as well.
\<close>

theorem handlePendings_other_key_counterexample:
  "map_of (pendingWarnings bob_warned_two) ''Cafe2'' = Some (Warning bob_two_rooms)
   \<and> map_of (pendingWarnings (snd (handlePendings cafe1 bob_warned_two))) ''Cafe2''
       \<noteq> map_of (pendingWarnings bob_warned_two) ''Cafe2''"
  by code_simp

section \<open>Alerting a visitor\<close>

text \<open>
  C7. The claim is that an \<open>alertVisitor\<close> naming a visitor is answered ALERTED,
  with an \<open>exposureAlert\<close> sent to each connection of the visitor, when the visitor
  is on line, and answered PENDING, with an entry queued, otherwise. The entry is
  queued as claimed. But for every \<open>alertVisitor\<close> with a message and a visitor the
  acknowledgment is never called and nothing is sent: on line, the handler calls
  \<open>S.alertVisitor\<close>, which ServerProxy does not have, and the TypeError is caught
  and logged; off line, the handler returns its text instead of acknowledging it.
\<close>

theorem alertVisitor_is_never_acknowledged:
  assumes "a_visitor d = Some v" "v \<noteq> []" "truthy (a_message d)"
  shows "acks (onAlertVisitor d st) = []
       \<and> emitted (after (onAlertVisitor d st)) = emitted st
       \<and> (filter (\<lambda>s. q_visitor (snd s) = Some v) (visitors st) \<noteq> [] \<longrightarrow>
            caught (onAlertVisitor d st) = Some TypeError \<and> after (onAlertVisitor d st) = st)
       \<and> (filter (\<lambda>s. q_visitor (snd s) = Some v) (visitors st) = [] \<longrightarrow>
            caught (onAlertVisitor d st) = None
          \<and> after (onAlertVisitor d st)
              = st\<lparr>pendingWarnings := AList.update v (Alert d) (pendingWarnings st)\<rparr>)"
proof (cases "filter (\<lambda>s. q_visitor (snd s) = Some v) (visitors st) = []")
  case True
  from onAlertVisitor_offline [OF assms True] True show ?thesis
    by (simp add: acks_def after_def caught_def)
next
  case False
  from onAlertVisitor_online [OF assms False] False show ?thesis
    by (simp add: acks_def after_def caught_def)
qed

theorem alertVisitor_is_never_acknowledged_witness:
  "run [Connection ''r1'' cafe1, Connection ''a1'' ann] init = Some cafe1_and_ann
   \<and> filter (\<lambda>s. q_visitor (snd s) = Some ''Ann'') (visitors cafe1_and_ann) = [(''a1'', ann)]
   \<and> acks (onAlertVisitor alert1 cafe1_and_ann) = []
   \<and> caught (onAlertVisitor alert1 cafe1_and_ann) = Some TypeError
   \<and> after (onAlertVisitor alert1 cafe1_and_ann) = cafe1_and_ann
   \<and> filter (\<lambda>s. q_visitor (snd s) = Some ''Ann'') (visitors cafe1_online) = []
   \<and> acks (onAlertVisitor alert1 cafe1_online) = []
   \<and> emitted (after (onAlertVisitor alert1 cafe1_online)) = emitted cafe1_online
   \<and> after (onAlertVisitor alert1 cafe1_online) = ann_alerted"
proof -
  have h: "a_visitor alert1 = Some ''Ann''" "''Ann'' \<noteq> []" "truthy (a_message alert1)"
    by code_simp+
  have on: "filter (\<lambda>s. q_visitor (snd s) = Some ''Ann'') (visitors cafe1_and_ann) = [(''a1'', ann)]"
    by code_simp
  then have on': "filter (\<lambda>s. q_visitor (snd s) = Some ''Ann'') (visitors cafe1_and_ann) \<noteq> []"
    by simp
  have off: "filter (\<lambda>s. q_visitor (snd s) = Some ''Ann'') (visitors cafe1_online) = []"
    by code_simp
  have u: "cafe1_online\<lparr>pendingWarnings := AList.update ''Ann'' (Alert alert1) (pendingWarnings cafe1_online)\<rparr>
             = ann_alerted"
    by code_simp
  note t1 = alertVisitor_is_never_acknowledged [OF h, of cafe1_and_ann]
  note t2 = alertVisitor_is_never_acknowledged [OF h, of cafe1_online]
  from t1 have a1: "acks (onAlertVisitor alert1 cafe1_and_ann) = []"
    by (rule conjunct1)
  have a2: "caught (onAlertVisitor alert1 cafe1_and_ann) = Some TypeError
            \<and> after (onAlertVisitor alert1 cafe1_and_ann) = cafe1_and_ann"
    by (rule t1 [THEN conjunct2, THEN conjunct2, THEN conjunct1, THEN mp, OF on'])
  from t2 have b1: "acks (onAlertVisitor alert1 cafe1_online) = []"
    by (rule conjunct1)
  from t2 have b2: "emitted (after (onAlertVisitor alert1 cafe1_online)) = emitted cafe1_online"
    by (rule conjunct2 [THEN conjunct1])
  have "after (onAlertVisitor alert1 cafe1_online)
          = cafe1_online\<lparr>pendingWarnings := AList.update ''Ann'' (Alert alert1) (pendingWarnings cafe1_online)\<rparr>"
    by (rule t2 [THEN conjunct2, THEN conjunct2, THEN conjunct2, THEN mp, OF off, THEN conjunct2])
  then have b3: "after (onAlertVisitor alert1 cafe1_online) = ann_alerted"
    by (simp only: u)
  from cafe1_and_ann_reached on a1 a2 off b1 b2 b3 show ?thesis
    by (intro conjI) simp_all
qed

section \<open>Occupancy\<close>

text \<open>
  For a name the table of groups inherits and no group has, \<open>getOccupancy\<close> answers
  with the \<open>length\<close> of the inherited member, and the guard of
  \<open>updateOccupancy\<close> lets the name through.
\<close>

lemma getOccupancy_inherited_name:
  "map_of (rooms st) ''toString'' = None \<Longrightarrow>
     getOccupancy st ''toString'' = Inr (JNum 0)
     \<and> emitted (snd (updateOccupancy st ''toString'')) \<noteq> emitted st"
  by (simp add: getOccupancy_def updateOccupancy_def rooms_at_def proto_names_def slot_length_def
                inherited_length_def emit_def Let_def split: option.splits)

text \<open>
  C8. The claim is that the occupancy of a room is the member count of its group less
  one for the room's own connection, and 0 when the room is not open or has no group.
  \<open>getOccupancy\<close> returns \<open>this.rooms[room].length\<close> and subtracts nothing.

  As the code has it, at every state the server reaches and for every room name that is
  not empty: when a group of that name exists, \<open>getOccupancy\<close> is the number of its
  members, which is positive, and a member such as the room's own connection is counted
  in it (the count is one more than the number of the other members); when no group of
  that name exists and the name is not one every object inherits, \<open>updateOccupancy\<close>
  returns 0 and sends nothing.
\<close>

theorem getOccupancy_counts_every_member:
  assumes "run evs init = Some st" "r \<noteq> []"
  shows "(map_of (rooms st) r \<noteq> None \<longrightarrow>
            getOccupancy st r = Inr (JNum (card (set (members st r))))
          \<and> 0 < card (set (members st r)))
       \<and> (own \<in> set (members st r) \<longrightarrow>
            getOccupancy st r = Inr (JNum (Suc (card (set (members st r) - {own})))))
       \<and> (map_of (rooms st) r = None \<and> r \<notin> set proto_names \<longrightarrow>
            updateOccupancy st r = (JNum 0, st))"
proof -
  have ok: "groups_ok (rooms st)"
    using inv_run [OF inv_init assms(1)] by (simp add: inv_def)
  have none: "updateOccupancy st r = (JNum 0, st)"
    if "map_of (rooms st) r = None" "r \<notin> set proto_names"
  proof -
    from that have "rooms_at st r = Missing"
      by (simp add: rooms_at_Missing)
    then show ?thesis
      by (simp add: updateOccupancy_def)
  qed
  have some: "getOccupancy st r = Inr (JNum (card (set (members st r))))
              \<and> 0 < card (set (members st r))"
    if "map_of (rooms st) r \<noteq> None"
  proof -
    from that obtain ms where ms: "map_of (rooms st) r = Some ms" by auto
    from groups_ok_lookup [OF ok ms] have "ms \<noteq> []" "distinct ms" by simp_all
    then have "length ms = card (set ms)" "0 < card (set ms)"
      by (simp_all add: distinct_card card_gt_0_iff)
    then show ?thesis
      using assms(2) by (simp add: getOccupancy_def rooms_at_Group [OF ms] slot_length_def
                                   members_lookup [OF ms])
  qed
  have own: "getOccupancy st r = Inr (JNum (Suc (card (set (members st r) - {own}))))"
    if "own \<in> set (members st r)"
  proof -
    from that have "map_of (rooms st) r \<noteq> None"
      by (rule members_nonempty)
    from some [OF this] have "getOccupancy st r = Inr (JNum (card (set (members st r))))" ..
    moreover have "card (set (members st r)) = Suc (card (set (members st r) - {own}))"
      by (rule card_Suc_Diff1 [symmetric]) (simp_all add: that)
    ultimately show ?thesis by simp
  qed
  from none some own show ?thesis by blast
qed

theorem getOccupancy_counts_every_member_witness:
  "run [Connection ''r1'' cafe1, Connection ''a1'' ann, OpenRoom ''r1'' open_cafe1,
        EnterRoom ''a1'' ann_enters] init = Some ann_inside
   \<and> members ann_inside ''Cafe1'' = [''r1'', ''a1'']
   \<and> getOccupancy ann_inside ''Cafe1''
       = Inr (JNum (Suc (card (set (members ann_inside ''Cafe1'') - {''r1''}))))
   \<and> getOccupancy ann_inside ''Cafe1'' = Inr (JNum 2)
   \<and> updateOccupancy ann_inside ''Cafe2'' = (JNum 0, ann_inside)"
proof -
  have m: "members ann_inside ''Cafe1'' = [''r1'', ''a1'']"
    by code_simp
  have h1: "''r1'' \<in> set (members ann_inside ''Cafe1'')"
    by code_simp
  have g1: "map_of (rooms ann_inside) ''Cafe1'' \<noteq> None"
    by code_simp
  have h2: "map_of (rooms ann_inside) ''Cafe2'' = None \<and> ''Cafe2'' \<notin> set proto_names"
    by code_simp
  have two: "card (set (members ann_inside ''Cafe1'')) = 2"
    unfolding m by simp
  have n1: "''Cafe1'' \<noteq> []" and n2: "''Cafe2'' \<noteq> []"
    by simp_all
  note t1 = getOccupancy_counts_every_member [OF ann_inside_reached n1, of "''r1''"]
  note t2 = getOccupancy_counts_every_member [OF ann_inside_reached n2, of "''r1''"]
  have a: "getOccupancy ann_inside ''Cafe1''
             = Inr (JNum (Suc (card (set (members ann_inside ''Cafe1'') - {''r1''}))))"
    by (rule t1 [THEN conjunct2, THEN conjunct1, THEN mp, OF h1])
  have "getOccupancy ann_inside ''Cafe1'' = Inr (JNum (card (set (members ann_inside ''Cafe1''))))"
    by (rule t1 [THEN conjunct1, THEN mp, OF g1, THEN conjunct1])
  then have b: "getOccupancy ann_inside ''Cafe1'' = Inr (JNum 2)"
    by (simp only: two)
  have c: "updateOccupancy ann_inside ''Cafe2'' = (JNum 0, ann_inside)"
    by (rule t2 [THEN conjunct2, THEN conjunct2, THEN mp, OF h2])
  from ann_inside_reached m a b c show ?thesis
    by (intro conjI)
qed

text \<open>
  Against the claim as stated: with Cafe1 open and Ann inside, the group has two members,
  the room's own connection and Ann's. The claim gives occupancy 1; the code answers 2.
\<close>

theorem getOccupancy_counterexample:
  "isOpen_spec ann_inside ''Cafe1''
   \<and> occupancy_spec ann_inside ''Cafe1'' = 1
   \<and> getOccupancy ann_inside ''Cafe1'' = Inr (JNum 2)
   \<and> getOccupancy ann_inside ''Cafe1'' \<noteq> Inr (JNum (occupancy_spec ann_inside ''Cafe1''))"
  by code_simp

section \<open>One pending entry per key\<close>




section \<open>Connections without an id\<close>

lemma onConnection_frame:
  "rooms (snd (onConnection q st)) = rooms st \<and> sockets (snd (onConnection q st)) = sockets st"
proof (cases "handlePendings q st")
  case (Pair r st')
  with handlePendings_frame [of q st] show ?thesis
    by (cases r) (simp_all add: onConnection_def exposeOpenRooms_def emit_def)
qed

lemma disconnect_gone:
  "map_of (sockets (disconnect sid st)) sid = None
   \<and> list_all (\<lambda>g. sid \<notin> set (snd g)) (rooms (disconnect sid st))"
  by (auto simp: disconnect_def delete_conv' leaveAll_def list_all_iff)

lemma openRooms_cong:
  "sockets s' = sockets s \<Longrightarrow> rooms s' = rooms s \<Longrightarrow> openRooms s' = openRooms s"
  by (simp add: openRooms_def has_group_def rooms_at_def available_def)

lemma exposeOpenRooms_frame:
  "pendingWarnings (exposeOpenRooms s) = pendingWarnings s
   \<and> emitted (exposeOpenRooms s) = emitted s @ [OpenRoomsExposed (openRooms s)]
   \<and> openRooms (exposeOpenRooms s) = openRooms s
   \<and> has_pending (exposeOpenRooms s) k = has_pending s k"
proof -
  have "openRooms (exposeOpenRooms s) = openRooms s"
    by (rule openRooms_cong) (simp_all add: exposeOpenRooms_def emit_def)
  moreover have "has_pending (exposeOpenRooms s) k = has_pending s k"
    by (cases k) (simp_all add: exposeOpenRooms_def emit_def has_pending_def)
  ultimately show ?thesis
    by (simp add: exposeOpenRooms_def emit_def)
qed

lemma join_pending:
  "pendingWarnings (join sid name s) = pendingWarnings s
   \<and> emitted (join sid name s) = emitted s
   \<and> has_pending (join sid name s) k = has_pending s k"
  by (cases k) (simp_all add: has_pending_def join_frame)

text \<open>What \<open>onConnection\<close> does with the pending warnings, case by case.\<close>

lemma onConnection_room_flush:
  assumes "truthy_str (q_room q)" "has_pending s (q_room q)" "fst (onConnection q s) = None"
  shows "pendingWarnings (snd (onConnection q s)) = []
       \<and> emitted (snd (onConnection q s))
           = emitted s @ replicate (length (pendingWarnings s))
                           (ToGroup JUndefined (JStr (str_of (q_room q))) (JStr ''notifyRoom''))
                       @ [OpenRoomsExposed (openRooms s)]"
proof -
  let ?f = "flush_rooms (str_of (q_room q)) (pendingWarnings s) s"
  obtain e s' where f: "?f = (e, s')"
    by (cases ?f)
  have h: "handlePendings q s = (case e of Some x \<Rightarrow> (Inl x, s') | None \<Rightarrow> (Inr None, s'))"
    using assms(1,2) f by (simp add: handlePendings_def)
  have e: "e = None"
  proof (cases e)
    case None
    then show ?thesis .
  next
    case (Some x)
    with h assms(3) show ?thesis
      by (simp add: onConnection_def)
  qed
  have ok: "fst ?f = None" and s': "s' = snd ?f"
    using f e by simp_all
  have c: "onConnection q s = (None, exposeOpenRooms s')"
    using h e by (simp add: onConnection_def)
  from flush_rooms_keys [OF ok] have "fst ` set (pendingWarnings (snd ?f)) = {}"
    by simp
  then have p: "pendingWarnings s' = []"
    by (simp add: s')
  have m: "emitted s' = emitted s @ replicate (length (pendingWarnings s))
                            (ToGroup JUndefined (JStr (str_of (q_room q))) (JStr ''notifyRoom''))"
    unfolding s' by (rule flush_rooms_emitted [OF ok])
  have "sockets s' = sockets s" "rooms s' = rooms s"
    unfolding s' by (simp_all add: flush_rooms_frame)
  then have o: "openRooms s' = openRooms s"
    by (rule openRooms_cong)
  show ?thesis
    unfolding c by (simp add: exposeOpenRooms_frame p m o)
qed

lemma onConnection_nothing_pending:
  assumes "truthy_str (q_room q) \<and> \<not> has_pending s (q_room q)
           \<or> \<not> truthy_str (q_room q)
             \<and> \<not> ((truthy_str (q_visitor q) \<or> truthy_str (q_admin q)) \<and> has_pending s (q_visitor q))"
  shows "onConnection q s = (None, exposeOpenRooms s)"
proof -
  have "\<exists>msg. handlePendings q s = (Inr msg, s)"
  proof (cases "truthy_str (q_room q)")
    case True
    with assms have "\<not> has_pending s (q_room q)"
      by simp
    with True show ?thesis
      by (simp add: handlePendings_def)
  next
    case False
    with assms have "\<not> ((truthy_str (q_visitor q) \<or> truthy_str (q_admin q)) \<and> has_pending s (q_visitor q))"
      by simp
    with False show ?thesis
      by (cases "truthy_str (q_visitor q) \<or> truthy_str (q_admin q)") (simp_all add: handlePendings_def)
  qed
  then obtain msg where "handlePendings q s = (Inr msg, s)" ..
  then show ?thesis
    by (simp add: onConnection_def)
qed

lemma onConnection_visitor_raises:
  assumes "\<not> truthy_str (q_room q)" "truthy_str (q_visitor q) \<or> truthy_str (q_admin q)"
    and "has_pending s (q_visitor q)"
  shows "onConnection q s = (Some ReferenceError, s)"
proof -
  have "handlePendings q s = (Inl ReferenceError, s)"
    using assms has_pending_nonempty [OF assms(3)]
    by (simp add: handlePendings_def flush_visitors_raises)
  then show ?thesis
    by (simp add: onConnection_def)
qed

text \<open>
  C10. A connection whose handshake query carries no id is disconnected at once: the
  socket leaves the socket table and every group, the pending warnings are not touched
  and nothing is sent. A connection with an id is processed. When it names a room and
  its state is \<open>Opened\<close> it joins the group of that room and the open rooms are
  broadcast; otherwise it joins nothing. Then the pending warnings are checked:
  \<^item> for a room under whose name an entry is pending, the flush is run: when it runs to
    its end, one message has been sent for each entry, the cache is empty, and the open
    rooms are broadcast;
  \<^item> for a room under whose name nothing is pending, and for any other connection
    that is not a visitor or an administrator with an entry pending under the visitor's
    name, the pending warnings stay as they are and the open rooms are broadcast;
  \<^item> for a visitor or an administrator with an entry pending under the visitor's name,
    the flush is entered, and raises.
\<close>

theorem connection_needs_an_id:
  "(\<not> truthy_str (q_id q) \<longrightarrow>
       connection sid q st = (None, disconnect sid st)
     \<and> pendingWarnings (snd (connection sid q st)) = pendingWarnings st
     \<and> emitted (snd (connection sid q st)) = emitted st
     \<and> map_of (sockets (snd (connection sid q st))) sid = None
     \<and> list_all (\<lambda>g. sid \<notin> set (snd g)) (rooms (snd (connection sid q st))))
   \<and> (truthy_str (q_id q) \<and> truthy_str (q_room q) \<and> q_state q = Some ''Opened'' \<longrightarrow>
       connection sid q st = onConnection q (exposeOpenRooms (join sid (str_of (q_room q)) st))
     \<and> sid \<in> set (members (snd (connection sid q st)) (str_of (q_room q))))
   \<and> (truthy_str (q_id q) \<and> \<not> (truthy_str (q_room q) \<and> q_state q = Some ''Opened'') \<longrightarrow>
       connection sid q st = onConnection q st
     \<and> rooms (snd (connection sid q st)) = rooms st)
   \<and> (truthy_str (q_id q) \<and> truthy_str (q_room q) \<and> q_state q = Some ''Opened''
        \<and> has_pending st (q_room q) \<and> fst (connection sid q st) = None \<longrightarrow>
       pendingWarnings (snd (connection sid q st)) = []
     \<and> emitted (snd (connection sid q st))
         = emitted st @ [OpenRoomsExposed (openRooms (join sid (str_of (q_room q)) st))]
             @ replicate (length (pendingWarnings st))
                 (ToGroup JUndefined (JStr (str_of (q_room q))) (JStr ''notifyRoom''))
             @ [OpenRoomsExposed (openRooms (join sid (str_of (q_room q)) st))])
   \<and> (truthy_str (q_id q) \<and> truthy_str (q_room q) \<and> q_state q \<noteq> Some ''Opened''
        \<and> has_pending st (q_room q) \<and> fst (connection sid q st) = None \<longrightarrow>
       pendingWarnings (snd (connection sid q st)) = []
     \<and> emitted (snd (connection sid q st))
         = emitted st @ replicate (length (pendingWarnings st))
                          (ToGroup JUndefined (JStr (str_of (q_room q))) (JStr ''notifyRoom''))
                      @ [OpenRoomsExposed (openRooms st)])
   \<and> (truthy_str (q_id q) \<and> truthy_str (q_room q) \<and> \<not> has_pending st (q_room q) \<longrightarrow>
       fst (connection sid q st) = None
     \<and> pendingWarnings (snd (connection sid q st)) = pendingWarnings st
     \<and> (q_state q \<noteq> Some ''Opened'' \<longrightarrow>
          emitted (snd (connection sid q st)) = emitted st @ [OpenRoomsExposed (openRooms st)]))
   \<and> (truthy_str (q_id q) \<and> \<not> truthy_str (q_room q)
        \<and> (truthy_str (q_visitor q) \<or> truthy_str (q_admin q)) \<and> has_pending st (q_visitor q) \<longrightarrow>
       connection sid q st = (Some ReferenceError, st))
   \<and> (truthy_str (q_id q) \<and> \<not> truthy_str (q_room q)
        \<and> \<not> ((truthy_str (q_visitor q) \<or> truthy_str (q_admin q)) \<and> has_pending st (q_visitor q)) \<longrightarrow>
       connection sid q st = (None, exposeOpenRooms st))"
proof -
  let ?r = "str_of (q_room q)"
  let ?j = "join sid ?r st"
  let ?st1 = "exposeOpenRooms ?j"
  let ?m = "ToGroup JUndefined (JStr ?r) (JStr ''notifyRoom'')"
  have a: "connection sid q st = (None, disconnect sid st)
     \<and> pendingWarnings (snd (connection sid q st)) = pendingWarnings st
     \<and> emitted (snd (connection sid q st)) = emitted st
     \<and> map_of (sockets (snd (connection sid q st))) sid = None
     \<and> list_all (\<lambda>g. sid \<notin> set (snd g)) (rooms (snd (connection sid q st)))"
    if "\<not> truthy_str (q_id q)"
  proof -
    have c: "connection sid q st = (None, disconnect sid st)"
      using that by (simp add: connection_def)
    show ?thesis
      unfolding c using disconnect_gone [of sid st] by (simp add: disconnect_def)
  qed
  have opened: "connection sid q st = onConnection q ?st1"
    if "truthy_str (q_id q)" "truthy_str (q_room q)" "q_state q = Some ''Opened''"
    using that by (simp add: connection_def)
  have plain: "connection sid q st = onConnection q st"
    if "truthy_str (q_id q)" "\<not> (truthy_str (q_room q) \<and> q_state q = Some ''Opened'')"
    using that by (auto simp: connection_def)
  have b: "connection sid q st = onConnection q ?st1
     \<and> sid \<in> set (members (snd (connection sid q st)) ?r)"
    if h: "truthy_str (q_id q)" "truthy_str (q_room q)" "q_state q = Some ''Opened''"
  proof -
    have "rooms (snd (onConnection q ?st1)) = rooms ?j"
      by (simp add: onConnection_frame exposeOpenRooms_def emit_def)
    then have "members (snd (onConnection q ?st1)) ?r = members ?j ?r"
      by (simp add: members_def)
    then show ?thesis
      unfolding opened [OF h] by (simp add: members_join)
  qed
  have c: "connection sid q st = onConnection q st \<and> rooms (snd (connection sid q st)) = rooms st"
    if h: "truthy_str (q_id q)" "\<not> (truthy_str (q_room q) \<and> q_state q = Some ''Opened'')"
    unfolding plain [OF h] by (simp add: onConnection_frame)
  have d: "pendingWarnings (snd (connection sid q st)) = []
     \<and> emitted (snd (connection sid q st))
         = emitted st @ [OpenRoomsExposed (openRooms ?j)]
             @ replicate (length (pendingWarnings st)) ?m @ [OpenRoomsExposed (openRooms ?j)]"
    if h: "truthy_str (q_id q)" "truthy_str (q_room q)" "q_state q = Some ''Opened''"
      and p: "has_pending st (q_room q)" and ok: "fst (connection sid q st) = None"
  proof -
    have p1: "has_pending ?st1 (q_room q)"
      using p by (simp add: exposeOpenRooms_frame join_pending)
    have ok1: "fst (onConnection q ?st1) = None"
      using ok by (simp add: opened [OF h])
    from onConnection_room_flush [OF h(2) p1 ok1] show ?thesis
      unfolding opened [OF h] by (simp add: exposeOpenRooms_frame join_pending)
  qed
  have e: "pendingWarnings (snd (connection sid q st)) = []
     \<and> emitted (snd (connection sid q st))
         = emitted st @ replicate (length (pendingWarnings st)) ?m @ [OpenRoomsExposed (openRooms st)]"
    if h: "truthy_str (q_id q)" "truthy_str (q_room q)" "q_state q \<noteq> Some ''Opened''"
      and p: "has_pending st (q_room q)" and ok: "fst (connection sid q st) = None"
  proof -
    have pl: "connection sid q st = onConnection q st"
      using h by (simp add: plain)
    have ok1: "fst (onConnection q st) = None"
      using ok by (simp add: pl)
    from onConnection_room_flush [OF h(2) p ok1] show ?thesis
      unfolding pl .
  qed
  have f: "fst (connection sid q st) = None
     \<and> pendingWarnings (snd (connection sid q st)) = pendingWarnings st
     \<and> (q_state q \<noteq> Some ''Opened'' \<longrightarrow>
          emitted (snd (connection sid q st)) = emitted st @ [OpenRoomsExposed (openRooms st)])"
    if h: "truthy_str (q_id q)" "truthy_str (q_room q)" and p: "\<not> has_pending st (q_room q)"
  proof (cases "q_state q = Some ''Opened''")
    case True
    have p1: "\<not> has_pending ?st1 (q_room q)"
      using p by (simp add: exposeOpenRooms_frame join_pending)
    have "onConnection q ?st1 = (None, exposeOpenRooms ?st1)"
      by (rule onConnection_nothing_pending) (simp add: h(2) p1)
    then show ?thesis
      unfolding opened [OF h True] using True by (simp add: exposeOpenRooms_frame join_pending)
  next
    case False
    have pl: "connection sid q st = onConnection q st"
      using h False by (simp add: plain)
    have "onConnection q st = (None, exposeOpenRooms st)"
      by (rule onConnection_nothing_pending) (simp add: h(2) p)
    then show ?thesis
      unfolding pl by (simp add: exposeOpenRooms_frame)
  qed
  have g: "connection sid q st = (Some ReferenceError, st)"
    if h: "truthy_str (q_id q)" "\<not> truthy_str (q_room q)"
      and v: "truthy_str (q_visitor q) \<or> truthy_str (q_admin q)" "has_pending st (q_visitor q)"
  proof -
    have pl: "connection sid q st = onConnection q st"
      using h by (simp add: plain)
    show ?thesis
      unfolding pl by (rule onConnection_visitor_raises [OF h(2) v])
  qed
  have i: "connection sid q st = (None, exposeOpenRooms st)"
    if h: "truthy_str (q_id q)" "\<not> truthy_str (q_room q)"
      and v: "\<not> ((truthy_str (q_visitor q) \<or> truthy_str (q_admin q)) \<and> has_pending st (q_visitor q))"
  proof -
    have pl: "connection sid q st = onConnection q st"
      using h by (simp add: plain)
    show ?thesis
      unfolding pl by (rule onConnection_nothing_pending) (simp add: h(2) v)
  qed
  show ?thesis
  proof (intro conjI)
    show "\<not> truthy_str (q_id q) \<longrightarrow>
       connection sid q st = (None, disconnect sid st)
     \<and> pendingWarnings (snd (connection sid q st)) = pendingWarnings st
     \<and> emitted (snd (connection sid q st)) = emitted st
     \<and> map_of (sockets (snd (connection sid q st))) sid = None
     \<and> list_all (\<lambda>g. sid \<notin> set (snd g)) (rooms (snd (connection sid q st)))"
      by (intro impI, (elim conjE)?, rule a, assumption+)
    show "truthy_str (q_id q) \<and> truthy_str (q_room q) \<and> q_state q = Some ''Opened'' \<longrightarrow>
       connection sid q st = onConnection q ?st1
     \<and> sid \<in> set (members (snd (connection sid q st)) ?r)"
      by (intro impI, (elim conjE)?, rule b, assumption+)
    show "truthy_str (q_id q) \<and> \<not> (truthy_str (q_room q) \<and> q_state q = Some ''Opened'') \<longrightarrow>
       connection sid q st = onConnection q st \<and> rooms (snd (connection sid q st)) = rooms st"
      by (intro impI, (elim conjE)?, rule c, assumption+)
    show "truthy_str (q_id q) \<and> truthy_str (q_room q) \<and> q_state q = Some ''Opened''
        \<and> has_pending st (q_room q) \<and> fst (connection sid q st) = None \<longrightarrow>
       pendingWarnings (snd (connection sid q st)) = []
     \<and> emitted (snd (connection sid q st))
         = emitted st @ [OpenRoomsExposed (openRooms ?j)]
             @ replicate (length (pendingWarnings st)) ?m @ [OpenRoomsExposed (openRooms ?j)]"
      by (intro impI, (elim conjE)?, rule d, assumption+)
    show "truthy_str (q_id q) \<and> truthy_str (q_room q) \<and> q_state q \<noteq> Some ''Opened''
        \<and> has_pending st (q_room q) \<and> fst (connection sid q st) = None \<longrightarrow>
       pendingWarnings (snd (connection sid q st)) = []
     \<and> emitted (snd (connection sid q st))
         = emitted st @ replicate (length (pendingWarnings st)) ?m @ [OpenRoomsExposed (openRooms st)]"
      by (intro impI, (elim conjE)?, rule e, assumption+)
    show "truthy_str (q_id q) \<and> truthy_str (q_room q) \<and> \<not> has_pending st (q_room q) \<longrightarrow>
       fst (connection sid q st) = None
     \<and> pendingWarnings (snd (connection sid q st)) = pendingWarnings st
     \<and> (q_state q \<noteq> Some ''Opened'' \<longrightarrow>
          emitted (snd (connection sid q st)) = emitted st @ [OpenRoomsExposed (openRooms st)])"
      by (intro impI, (elim conjE)?, rule f, assumption+)
    show "truthy_str (q_id q) \<and> \<not> truthy_str (q_room q)
        \<and> (truthy_str (q_visitor q) \<or> truthy_str (q_admin q)) \<and> has_pending st (q_visitor q) \<longrightarrow>
       connection sid q st = (Some ReferenceError, st)"
      by (intro impI, (elim conjE)?, rule g, assumption+)
    show "truthy_str (q_id q) \<and> \<not> truthy_str (q_room q)
        \<and> \<not> ((truthy_str (q_visitor q) \<or> truthy_str (q_admin q)) \<and> has_pending st (q_visitor q)) \<longrightarrow>
       connection sid q st = (None, exposeOpenRooms st)"
      by (intro impI, (elim conjE)?, rule i, assumption+)
  qed
qed

text \<open>
  The cases of the theorem on runs of the server: a connection without an id while two
  entries are pending; Cafe1 coming back on a new socket r2, with state \<open>Opened\<close>
  and without it, while Bob's warnings are pending; Cafe1's first connection, with
  nothing pending; Ann connecting while an alert is pending for her, and while only
  Bob's warnings are.
\<close>

theorem connection_needs_an_id_witness:
  "\<not> truthy_str (q_id no_id)
   \<and> has_pending both_pending (q_room no_id)
   \<and> connection ''x1'' no_id (register ''x1'' no_id both_pending)
       = (None, disconnect ''x1'' (register ''x1'' no_id both_pending))
   \<and> pendingWarnings (snd (connection ''x1'' no_id (register ''x1'' no_id both_pending)))
       = pendingWarnings both_pending
   \<and> emitted (snd (connection ''x1'' no_id (register ''x1'' no_id both_pending)))
       = emitted both_pending
   \<and> members (snd (connection ''x1'' no_id (register ''x1'' no_id both_pending))) ''Cafe1'' = []
   \<and> ''r2'' \<in> set (members (snd (connection ''r2'' cafe1_reopening
                                      (register ''r2'' cafe1_reopening bob_warned_two))) ''Cafe1'')
   \<and> rooms (snd (connection ''a1'' ann (register ''a1'' ann init))) = [(''a1'', [''a1''])]
   \<and> pendingWarnings bob_warned_two
       = [(''Cafe1'', Warning bob_two_rooms), (''Cafe2'', Warning bob_two_rooms)]
   \<and> pendingWarnings (snd (connection ''r2'' cafe1_reopening
                              (register ''r2'' cafe1_reopening bob_warned_two))) = []
   \<and> emitted (snd (connection ''r2'' cafe1_reopening
                       (register ''r2'' cafe1_reopening bob_warned_two)))
       = emitted bob_warned_two
         @ [OpenRoomsExposed [(''r1'', cafe1), (''r2'', cafe1_reopening)],
            ToGroup JUndefined (JStr ''Cafe1'') (JStr ''notifyRoom''),
            ToGroup JUndefined (JStr ''Cafe1'') (JStr ''notifyRoom''),
            OpenRoomsExposed [(''r1'', cafe1), (''r2'', cafe1_reopening)]]
   \<and> pendingWarnings (snd (connection ''r2'' cafe1 (register ''r2'' cafe1 bob_warned))) = []
   \<and> emitted (snd (connection ''r2'' cafe1 (register ''r2'' cafe1 bob_warned)))
       = emitted bob_warned
         @ [ToGroup JUndefined (JStr ''Cafe1'') (JStr ''notifyRoom''), OpenRoomsExposed []]
   \<and> fst (connection ''r1'' cafe1 (register ''r1'' cafe1 init)) = None
   \<and> emitted (snd (connection ''r1'' cafe1 (register ''r1'' cafe1 init))) = [OpenRoomsExposed []]
   \<and> connection ''a1'' ann (register ''a1'' ann ann_alerted)
       = (Some ReferenceError, register ''a1'' ann ann_alerted)
   \<and> connection ''a1'' ann (register ''a1'' ann bob_warned_two)
       = (None, exposeOpenRooms (register ''a1'' ann bob_warned_two))"
proof -
  let ?x = "register ''x1'' no_id both_pending"
  let ?o = "register ''r2'' cafe1_reopening bob_warned_two"
  let ?c = "register ''r2'' cafe1 bob_warned"
  let ?i = "register ''r1'' cafe1 init"
  let ?a = "register ''a1'' ann ann_alerted"
  let ?b = "register ''a1'' ann bob_warned_two"
  let ?m = "ToGroup JUndefined (JStr ''Cafe1'') (JStr ''notifyRoom'')"
  have h1: "\<not> truthy_str (q_id no_id)"
    by code_simp
  have p: "has_pending both_pending (q_room no_id)"
    by code_simp
  have f: "pendingWarnings ?x = pendingWarnings both_pending \<and> emitted ?x = emitted both_pending"
    by (rule register_frame)
  note t1 = connection_needs_an_id [of no_id "''x1''" ?x, THEN conjunct1, THEN mp, OF h1]
  have m: "members (disconnect ''x1'' ?x) ''Cafe1'' = []"
    by code_simp
  from t1 have c1: "connection ''x1'' no_id ?x = (None, disconnect ''x1'' ?x)"
    by (rule conjunct1)
  from t1 have "pendingWarnings (snd (connection ''x1'' no_id ?x)) = pendingWarnings ?x"
    by (rule conjunct2 [THEN conjunct1])
  then have pw: "pendingWarnings (snd (connection ''x1'' no_id ?x)) = pendingWarnings both_pending"
    by (simp only: f)
  from t1 have "emitted (snd (connection ''x1'' no_id ?x)) = emitted ?x"
    by (rule conjunct2 [THEN conjunct2, THEN conjunct1])
  then have em: "emitted (snd (connection ''x1'' no_id ?x)) = emitted both_pending"
    by (simp only: f)
  have mm: "members (snd (connection ''x1'' no_id ?x)) ''Cafe1'' = []"
    unfolding c1 using m by simp

  have h2: "truthy_str (q_id cafe1_reopening) \<and> truthy_str (q_room cafe1_reopening)
            \<and> q_state cafe1_reopening = Some ''Opened''"
    by code_simp
  have s: "str_of (q_room cafe1_reopening) = ''Cafe1''"
    by code_simp
  note t2 = connection_needs_an_id [of cafe1_reopening "''r2''" ?o,
                                    THEN conjunct2, THEN conjunct1, THEN mp, OF h2, THEN conjunct2]
  have h3: "truthy_str (q_id ann) \<and> \<not> (truthy_str (q_room ann) \<and> q_state ann = Some ''Opened'')"
    by code_simp
  have r: "rooms (register ''a1'' ann init) = [(''a1'', [''a1''])]"
    by code_simp
  note t3 = connection_needs_an_id [of ann "''a1''" "register ''a1'' ann init",
                                    THEN conjunct2, THEN conjunct2, THEN conjunct1, THEN mp, OF h3,
                                    THEN conjunct2]

  have p2: "pendingWarnings bob_warned_two
              = [(''Cafe1'', Warning bob_two_rooms), (''Cafe2'', Warning bob_two_rooms)]"
    by code_simp
  have h4: "truthy_str (q_id cafe1_reopening) \<and> truthy_str (q_room cafe1_reopening)
            \<and> q_state cafe1_reopening = Some ''Opened'' \<and> has_pending ?o (q_room cafe1_reopening)
            \<and> fst (connection ''r2'' cafe1_reopening ?o) = None"
    by code_simp
  note t4 = connection_needs_an_id [of cafe1_reopening "''r2''" ?o,
                                    THEN conjunct2, THEN conjunct2, THEN conjunct2, THEN conjunct1,
                                    THEN mp, OF h4]
  have d1: "pendingWarnings (snd (connection ''r2'' cafe1_reopening ?o)) = []"
    by (rule t4 [THEN conjunct1])
  have v4: "emitted ?o @ [OpenRoomsExposed (openRooms (join ''r2'' (str_of (q_room cafe1_reopening)) ?o))]
              @ replicate (length (pendingWarnings ?o))
                  (ToGroup JUndefined (JStr (str_of (q_room cafe1_reopening))) (JStr ''notifyRoom''))
              @ [OpenRoomsExposed (openRooms (join ''r2'' (str_of (q_room cafe1_reopening)) ?o))]
            = emitted bob_warned_two
              @ [OpenRoomsExposed [(''r1'', cafe1), (''r2'', cafe1_reopening)], ?m, ?m,
                 OpenRoomsExposed [(''r1'', cafe1), (''r2'', cafe1_reopening)]]"
    by code_simp
  have d2: "emitted (snd (connection ''r2'' cafe1_reopening ?o))
              = emitted bob_warned_two
                @ [OpenRoomsExposed [(''r1'', cafe1), (''r2'', cafe1_reopening)], ?m, ?m,
                   OpenRoomsExposed [(''r1'', cafe1), (''r2'', cafe1_reopening)]]"
    by (rule trans [OF t4 [THEN conjunct2] v4])

  have h5: "truthy_str (q_id cafe1) \<and> truthy_str (q_room cafe1) \<and> q_state cafe1 \<noteq> Some ''Opened''
            \<and> has_pending ?c (q_room cafe1) \<and> fst (connection ''r2'' cafe1 ?c) = None"
    by code_simp
  note t5 = connection_needs_an_id [of cafe1 "''r2''" ?c,
                                    THEN conjunct2, THEN conjunct2, THEN conjunct2, THEN conjunct2,
                                    THEN conjunct1, THEN mp, OF h5]
  have e1: "pendingWarnings (snd (connection ''r2'' cafe1 ?c)) = []"
    by (rule t5 [THEN conjunct1])
  have v5: "emitted ?c @ replicate (length (pendingWarnings ?c))
                           (ToGroup JUndefined (JStr (str_of (q_room cafe1))) (JStr ''notifyRoom''))
                       @ [OpenRoomsExposed (openRooms ?c)]
            = emitted bob_warned @ [?m, OpenRoomsExposed []]"
    by code_simp
  have e2: "emitted (snd (connection ''r2'' cafe1 ?c)) = emitted bob_warned @ [?m, OpenRoomsExposed []]"
    by (rule trans [OF t5 [THEN conjunct2] v5])

  have h6: "truthy_str (q_id cafe1) \<and> truthy_str (q_room cafe1) \<and> \<not> has_pending ?i (q_room cafe1)"
    by code_simp
  have h6': "q_state cafe1 \<noteq> Some ''Opened''"
    by code_simp
  note t6 = connection_needs_an_id [of cafe1 "''r1''" ?i,
                                    THEN conjunct2, THEN conjunct2, THEN conjunct2, THEN conjunct2,
                                    THEN conjunct2, THEN conjunct1, THEN mp, OF h6]
  have g1: "fst (connection ''r1'' cafe1 ?i) = None"
    by (rule t6 [THEN conjunct1])
  have v6: "emitted ?i @ [OpenRoomsExposed (openRooms ?i)] = [OpenRoomsExposed []]"
    by code_simp
  have g2: "emitted (snd (connection ''r1'' cafe1 ?i)) = [OpenRoomsExposed []]"
    by (rule trans [OF t6 [THEN conjunct2, THEN conjunct2, THEN mp, OF h6'] v6])

  have h7: "truthy_str (q_id ann) \<and> \<not> truthy_str (q_room ann)
            \<and> (truthy_str (q_visitor ann) \<or> truthy_str (q_admin ann)) \<and> has_pending ?a (q_visitor ann)"
    by code_simp
  have k1: "connection ''a1'' ann ?a = (Some ReferenceError, ?a)"
    by (rule connection_needs_an_id [of ann "''a1''" ?a,
               THEN conjunct2, THEN conjunct2, THEN conjunct2, THEN conjunct2,
               THEN conjunct2, THEN conjunct2, THEN conjunct1, THEN mp, OF h7])
  have h8: "truthy_str (q_id ann) \<and> \<not> truthy_str (q_room ann)
            \<and> \<not> ((truthy_str (q_visitor ann) \<or> truthy_str (q_admin ann)) \<and> has_pending ?b (q_visitor ann))"
    by code_simp
  have k2: "connection ''a1'' ann ?b = (None, exposeOpenRooms ?b)"
    by (rule connection_needs_an_id [of ann "''a1''" ?b,
               THEN conjunct2, THEN conjunct2, THEN conjunct2, THEN conjunct2,
               THEN conjunct2, THEN conjunct2, THEN conjunct2, THEN mp, OF h8])
  from h1 p c1 pw em mm t2 [unfolded s] t3 [unfolded r] p2 d1 d2 e1 e2 g1 g2 k1 k2 show ?thesis
    by (intro conjI)
qed

end
